theory Spec2Isabelle
  imports Main "HOL-Library.Sublist" "HOL-Library.Char_ord" "HOL-Library.List_Lexorder"
begin

section \<open>The JavaScript values the handlers and components compute with\<close>

text \<open>
  A JavaScript string is a sequence of code units. The model uses HOL's \<open>string\<close>: every
  function below works unit by unit, and a \<open>char\<close> stands for a code unit in the range
  0..255 (ASCII and Latin-1). Backslash, carriage return, line feed and the double quote
  have no literal notation and get names.
\<close>

abbreviation BSL :: char where "BSL \<equiv> CHR 0x5C"
abbreviation CR :: char where "CR \<equiv> CHR 0x0D"
abbreviation LF :: char where "LF \<equiv> CHR 0x0A"
abbreviation DQ :: char where "DQ \<equiv> CHR 0x22"

text \<open>
  \<^verbatim>\<open>s.replace(/c/g, r)\<close> for a pattern that is one literal character and a replacement
  text without \<^verbatim>\<open>$\<close>: every occurrence of the character, left to right, becomes \<open>r\<close>.
\<close>

definition replace_char :: "char \<Rightarrow> string \<Rightarrow> string \<Rightarrow> string" where
  "replace_char c r s = concat (map (\<lambda>x. if x = c then r else [x]) s)"

text \<open>\<^verbatim>\<open>Array.prototype.join\<close>: the separator stands between neighbours only.\<close>

fun join :: "string \<Rightarrow> string list \<Rightarrow> string" where
  "join sep [] = []"
| "join sep [x] = x"
| "join sep (x # y # ys) = x @ sep @ join sep (y # ys)"

text \<open>\<^verbatim>\<open>String.prototype.padStart\<close> with a one-character filler.\<close>

definition padStart :: "nat \<Rightarrow> char \<Rightarrow> string \<Rightarrow> string" where
  "padStart n c s = replicate (n - length s) c @ s"

text \<open>
  A JavaScript number that is either an integer or \<^verbatim>\<open>NaN\<close>: the Date getters return
  nothing else. All integers met here stay below \<open>2^53\<close> in size, where the double
  arithmetic of the runtime is exact.
\<close>

type_synonym number = "int option"

abbreviation NaN :: number where "NaN \<equiv> None"

definition num_add :: "number \<Rightarrow> int \<Rightarrow> number" where
  "num_add n k = map_option (\<lambda>i. i + k) n"

fun digits :: "nat \<Rightarrow> string" where
  "digits n = (if n < 10 then [''0123456789'' ! n]
               else digits (n div 10) @ [''0123456789'' ! (n mod 10)])"

declare digits.simps [simp del]

text \<open>\<^verbatim>\<open>Number.prototype.toString()\<close> on an integer or on \<^verbatim>\<open>NaN\<close>.\<close>

definition Number_toString :: "number \<Rightarrow> string" where
  "Number_toString n =
     (case n of
        None \<Rightarrow> ''NaN''
      | Some i \<Rightarrow> if i < 0 then CHR ''-'' # digits (nat (- i)) else digits (nat i))"

section \<open>The Date object of the runtime\<close>

text \<open>
  A Date holds a time value: the number of milliseconds since 1970-01-01T00:00:00Z, an
  integer of absolute value at most \<open>8.64 * 10^15\<close>, or \<^verbatim>\<open>NaN\<close> (an invalid Date). The
  functions below are the abstract operations of the language standard, on integers.
\<close>

type_synonym date = "int option"

definition msPerSecond :: int where "msPerSecond = 1000"
definition msPerMinute :: int where "msPerMinute = 60000"
definition msPerHour :: int where "msPerHour = 3600000"
definition msPerDay :: int where "msPerDay = 86400000"

definition TimeClip :: "int \<Rightarrow> date" where
  "TimeClip t = (if \<bar>t\<bar> > 8640000000000000 then None else Some t)"

definition Day :: "int \<Rightarrow> int" where
  "Day t = t div msPerDay"

definition TimeWithinDay :: "int \<Rightarrow> int" where
  "TimeWithinDay t = t mod msPerDay"

definition DaysInYear :: "int \<Rightarrow> int" where
  "DaysInYear y =
     (if y mod 4 \<noteq> 0 then 365 else if y mod 100 \<noteq> 0 then 366
      else if y mod 400 \<noteq> 0 then 365 else 366)"

definition DayFromYear :: "int \<Rightarrow> int" where
  "DayFromYear y =
     365 * (y - 1970) + (y - 1969) div 4 - (y - 1901) div 100 + (y - 1601) div 400"

text \<open>
  The standard defines \<open>YearFromTime t\<close> as the largest year \<open>y\<close> whose first day is not
  after \<open>t\<close>. An estimate from the mean length of a year is off by at most one.
\<close>

definition YearFromTime :: "int \<Rightarrow> int" where
  "YearFromTime t =
     (let d = Day t; y = 1970 + (400 * d) div 146097
      in if DayFromYear (y + 1) \<le> d then y + 1
         else if DayFromYear y \<le> d then y else y - 1)"

definition InLeapYear :: "int \<Rightarrow> int" where
  "InLeapYear t = (if DaysInYear (YearFromTime t) = 366 then 1 else 0)"

definition DayWithinYear :: "int \<Rightarrow> int" where
  "DayWithinYear t = Day t - DayFromYear (YearFromTime t)"

text \<open>The day of the year on which month \<open>m\<close> (0 to 11) starts; \<open>l\<close> is 1 in a leap year.\<close>

definition month_start :: "int \<Rightarrow> int \<Rightarrow> int" where
  "month_start m l =
     (if m = 0 then 0 else if m = 1 then 31 else if m = 2 then 59 + l
      else if m = 3 then 90 + l else if m = 4 then 120 + l else if m = 5 then 151 + l
      else if m = 6 then 181 + l else if m = 7 then 212 + l else if m = 8 then 243 + l
      else if m = 9 then 273 + l else if m = 10 then 304 + l else 334 + l)"

definition MonthFromTime :: "int \<Rightarrow> int" where
  "MonthFromTime t =
     (let d = DayWithinYear t; l = InLeapYear t
      in if d < 31 then 0 else if d < 59 + l then 1 else if d < 90 + l then 2
         else if d < 120 + l then 3 else if d < 151 + l then 4 else if d < 181 + l then 5
         else if d < 212 + l then 6 else if d < 243 + l then 7 else if d < 273 + l then 8
         else if d < 304 + l then 9 else if d < 334 + l then 10 else 11)"

definition DateFromTime :: "int \<Rightarrow> int" where
  "DateFromTime t = DayWithinYear t - month_start (MonthFromTime t) (InLeapYear t) + 1"

definition WeekDay :: "int \<Rightarrow> int" where
  "WeekDay t = (Day t + 4) mod 7"

definition HourFromTime :: "int \<Rightarrow> int" where
  "HourFromTime t = (t div msPerHour) mod 24"

definition MinFromTime :: "int \<Rightarrow> int" where
  "MinFromTime t = (t div msPerMinute) mod 60"

definition SecFromTime :: "int \<Rightarrow> int" where
  "SecFromTime t = (t div msPerSecond) mod 60"

definition msFromTime :: "int \<Rightarrow> int" where
  "msFromTime t = t mod msPerSecond"

definition MakeDay :: "int \<Rightarrow> int \<Rightarrow> int \<Rightarrow> int" where
  "MakeDay year month dt =
     (let ym = year + month div 12; mn = month mod 12
      in DayFromYear ym + month_start mn (if DaysInYear ym = 366 then 1 else 0) + dt - 1)"

definition MakeDate :: "int \<Rightarrow> int \<Rightarrow> int" where
  "MakeDate day time = day * msPerDay + time"

definition getUTCFullYear :: "date \<Rightarrow> number" where
  "getUTCFullYear d = map_option YearFromTime d"

definition getUTCMonth :: "date \<Rightarrow> number" where
  "getUTCMonth d = map_option MonthFromTime d"

definition getUTCDate :: "date \<Rightarrow> number" where
  "getUTCDate d = map_option DateFromTime d"

definition getUTCHours :: "date \<Rightarrow> number" where
  "getUTCHours d = map_option HourFromTime d"

definition getUTCMinutes :: "date \<Rightarrow> number" where
  "getUTCMinutes d = map_option MinFromTime d"

definition getUTCSeconds :: "date \<Rightarrow> number" where
  "getUTCSeconds d = map_option SecFromTime d"

section \<open>The calendar-file route: formatting and escaping\<close>

definition pad_ics :: "number \<Rightarrow> string" where
  "pad_ics n = padStart 2 (CHR ''0'') (Number_toString n)"

definition toIcsUtc :: "date \<Rightarrow> string" where
  "toIcsUtc d =
     Number_toString (getUTCFullYear d) @
     pad_ics (num_add (getUTCMonth d) 1) @
     pad_ics (getUTCDate d) @ ''T'' @
     pad_ics (getUTCHours d) @
     pad_ics (getUTCMinutes d) @
     pad_ics (getUTCSeconds d) @ ''Z''"

definition escapeIcsText :: "string \<Rightarrow> string" where
  "escapeIcsText s =
     replace_char LF [BSL, CHR ''n'']
       (replace_char (CHR '','') [BSL, CHR '','']
         (replace_char (CHR '';'') [BSL, CHR '';'']
           (replace_char BSL [BSL, BSL] s)))"

text \<open>
  The escaping rule as the specification words it: each reserved character is replaced
  by a backslash and a mark, every other character stays.
\<close>

definition escape_unit_spec :: "char \<Rightarrow> string" where
  "escape_unit_spec c =
     (if c = BSL then [BSL, BSL]
      else if c = CHR '';'' then [BSL, CHR '';'']
      else if c = CHR '','' then [BSL, CHR '','']
      else if c = LF then [BSL, CHR ''n'']
      else [c])"

definition escape_spec :: "string \<Rightarrow> string" where
  "escape_spec s = concat (map escape_unit_spec s)"

definition reserved :: "char set" where
  "reserved = {BSL, CHR '';'', CHR '','', LF}"

section \<open>The events list: formatting\<close>

definition pad :: "number \<Rightarrow> string" where
  "pad n = padStart 2 (CHR ''0'') (Number_toString n)"

definition toGoogleDateUTC :: "date \<Rightarrow> string" where
  "toGoogleDateUTC d =
     Number_toString (getUTCFullYear d) @
     pad (num_add (getUTCMonth d) 1) @
     pad (getUTCDate d) @ ''T'' @
     pad (getUTCHours d) @
     pad (getUTCMinutes d) @
     pad (getUTCSeconds d) @ ''Z''"


section \<open>The calendar-file route: the handler\<close>

text \<open>
  A row of the \<^verbatim>\<open>events\<close> table as the store returns it. The identifier field is
  \<^verbatim>\<open>id\<close> in the source.
\<close>

record EventRow =
  ev_id :: string
  title :: string
  start_ts :: string
  end_ts :: string
  venue :: "string option"

text \<open>
  What a query of the store resolves to: a \<^verbatim>\<open>data\<close> field, null or a value, and an
  \<^verbatim>\<open>error\<close> field, null or an object with a message.
\<close>

record 'a query_result =
  data :: "'a option"
  error :: "string option"

datatype json =
    JNull
  | JBool bool
  | JNum int
  | JStr string
  | JArr "json list"
  | JObj "(string \<times> json) list"

datatype payload = Text string | Json json

record response =
  status :: nat
  body :: payload
  headers :: "(string \<times> string) list"

text \<open>The lines of the calendar file, before they are joined.\<close>

definition ics_lines :: "EventRow \<Rightarrow> date \<Rightarrow> date \<Rightarrow> date \<Rightarrow> string list" where
  "ics_lines ev start end now =
     [''BEGIN:VCALENDAR'',
      ''VERSION:2.0'',
      ''PRODID:-//MCC Events//EN'',
      ''CALSCALE:GREGORIAN'',
      ''METHOD:PUBLISH'',
      ''BEGIN:VEVENT'',
      ''UID:'' @ ev_id ev @ ''@mcc-events'',
      ''DTSTAMP:'' @ toIcsUtc now,
      ''DTSTART:'' @ toIcsUtc start,
      ''DTEND:'' @ toIcsUtc end,
      ''SUMMARY:'' @ escapeIcsText (title ev),
      ''LOCATION:'' @ escapeIcsText (case venue ev of None \<Rightarrow> [] | Some v \<Rightarrow> v),
      ''END:VEVENT'',
      ''END:VCALENDAR'',
      []]"

definition ics :: "EventRow \<Rightarrow> date \<Rightarrow> date \<Rightarrow> date \<Rightarrow> string" where
  "ics ev start end now = join [CR, LF] (ics_lines ev start end now)"

text \<open>
  The character class \<^verbatim>\<open>[a-z0-9_\-]\<close> under the flag \<^verbatim>\<open>i\<close> (and without the flag
  \<^verbatim>\<open>u\<close>): the letters of either case, the digits, underscore and hyphen. No code unit
  outside ASCII folds to an ASCII letter in this mode.
\<close>

definition class_safe :: "char \<Rightarrow> bool" where
  "class_safe c =
     ((CHR ''a'' \<le> c \<and> c \<le> CHR ''z'') \<or> (CHR ''A'' \<le> c \<and> c \<le> CHR ''Z'') \<or>
      (CHR ''0'' \<le> c \<and> c \<le> CHR ''9'') \<or> c = CHR ''_'' \<or> c = CHR ''-'')"

definition safeTitle :: "string \<Rightarrow> string" where
  "safeTitle t = take 50 (map (\<lambda>c. if \<not> class_safe c then CHR ''_'' else c) t)"

text \<open>
  The title part of the file name as the specification words it: the first 50 characters
  of the title, where each character that is not an ASCII letter, a digit, an underscore
  or a hyphen gives way to an underscore.
\<close>

definition title_chars :: "char set" where
  "title_chars =
     set (''abcdefghijklmnopqrstuvwxyz'' @ ''ABCDEFGHIJKLMNOPQRSTUVWXYZ'' @ ''0123456789'' @ ''_-'')"

definition sanitize_spec :: "string \<Rightarrow> string" where
  "sanitize_spec t = map (\<lambda>c. if c \<in> title_chars then c else CHR ''_'') (take 50 t)"

text \<open>
  The handler. Its surroundings are parameters: \<open>parse\<close> is \<^verbatim>\<open>new Date(string)\<close>,
  \<open>now\<close> the clock reading \<^verbatim>\<open>new Date()\<close>, \<open>select_single\<close> the query of the store for
  one row by identifier, and \<open>ctx_id\<close> the route parameter (\<open>None\<close> when undefined).
\<close>

definition GET ::
  "(string \<Rightarrow> date) \<Rightarrow> date \<Rightarrow> (string \<Rightarrow> EventRow query_result) \<Rightarrow> string option \<Rightarrow> response"
where
  "GET parse now select_single ctx_id =
     (case ctx_id of
        None \<Rightarrow> \<lparr>status = 400, body = Text ''Missing event id'', headers = []\<rparr>
      | Some i \<Rightarrow>
          if i = [] then \<lparr>status = 400, body = Text ''Missing event id'', headers = []\<rparr>
          else
            (let r = select_single i in
             case (error r, data r) of
               (Some e, _) \<Rightarrow> \<lparr>status = 404, body = Text ''Event not found'', headers = []\<rparr>
             | (None, None) \<Rightarrow> \<lparr>status = 404, body = Text ''Event not found'', headers = []\<rparr>
             | (None, Some ev) \<Rightarrow>
                 (let start = parse (start_ts ev); end = parse (end_ts ev)
                  in \<lparr>status = 200,
                      body = Text (ics ev start end now),
                      headers =
                        [(''Content-Type'', ''text/calendar; charset=utf-8''),
                         (''Content-Disposition'',
                            ''attachment; filename='' @ [DQ] @ ''event-'' @ safeTitle (title ev) @
                            ''.ics'' @ [DQ])]\<rparr>)))"

section \<open>The event creation route\<close>







section \<open>The scenario of the specification\<close>

text \<open>
  The event of the specification's worked scenario, a store that holds it and nothing
  else, and the reading of its two timestamps: 2025-09-05T17:00:00Z is 1757091600000
  milliseconds after the epoch, and 19:00:00Z is two hours later.
\<close>

definition welcome_bbq :: EventRow where
  "welcome_bbq =
     \<lparr>ev_id = ''e1'', title = ''Welcome BBQ'', start_ts = ''2025-09-05T17:00:00Z'',
      end_ts = ''2025-09-05T19:00:00Z'', venue = Some ''Main Hall''\<rparr>"

definition welcome_parse :: "string \<Rightarrow> date" where
  "welcome_parse s =
     (if s = ''2025-09-05T17:00:00Z'' then Some 1757091600000
      else if s = ''2025-09-05T19:00:00Z'' then Some 1757098800000
      else None)"

definition welcome_store :: "string \<Rightarrow> EventRow query_result" where
  "welcome_store i =
     (if i = ''e1'' then \<lparr>data = Some welcome_bbq, error = None\<rparr>
      else \<lparr>data = None, error = Some ''no rows returned''\<rparr>)"

section \<open>Reading a calendar text\<close>

text \<open>
  The lines of a text whose line terminator is CR LF, as \<^verbatim>\<open>text.split("\r\n")\<close> gives
  them: the text is cut at every CR LF, scanning from the left.
\<close>

fun lines_crlf :: "string \<Rightarrow> string list" where
  "lines_crlf [] = [[]]"
| "lines_crlf [c] = [[c]]"
| "lines_crlf (c # d # cs) =
     (if c = CR \<and> d = LF then [] # lines_crlf cs
      else (case lines_crlf (d # cs) of
              [] \<Rightarrow> [[c]]
            | l # ls \<Rightarrow> (c # l) # ls))"

text \<open>No line feed stands alone: each one comes right after a carriage return.\<close>

fun no_bare_lf :: "string \<Rightarrow> bool" where
  "no_bare_lf [] = True"
| "no_bare_lf [c] = (c \<noteq> LF)"
| "no_bare_lf (c # d # cs) =
     (c \<noteq> LF \<and> (if c = CR \<and> d = LF then no_bare_lf cs else no_bare_lf (d # cs)))"

text \<open>
  The compact form \<^verbatim>\<open>YYYYMMDDTHHMMSSZ\<close> as the specification words it: sixteen
  characters, the UTC year in four digits and month, day, hour, minute and second in two
  digits each.
\<close>

definition digit :: "int \<Rightarrow> char" where
  "digit n = ''0123456789'' ! nat (n mod 10)"

definition two_digits :: "int \<Rightarrow> string" where
  "two_digits n = [digit (n div 10), digit n]"

definition four_digits :: "int \<Rightarrow> string" where
  "four_digits n = [digit (n div 1000), digit (n div 100), digit (n div 10), digit n]"

definition compact_utc_spec :: "int \<Rightarrow> string" where
  "compact_utc_spec t =
     four_digits (YearFromTime t) @ two_digits (MonthFromTime t + 1) @
     two_digits (DateFromTime t) @ ''T'' @ two_digits (HourFromTime t) @
     two_digits (MinFromTime t) @ two_digits (SecFromTime t) @ ''Z''"

definition is_digit :: "char \<Rightarrow> bool" where
  "is_digit c = (c \<in> set ''0123456789'')"

definition compact_shape :: "string \<Rightarrow> bool" where
  "compact_shape s =
     (length s = 16 \<and> list_all is_digit (take 8 s) \<and> s ! 8 = CHR ''T'' \<and>
      list_all is_digit (take 6 (drop 9 s)) \<and> s ! 15 = CHR ''Z'')"

section \<open>The Date object of the runtime: local time\<close>

text \<open>
  The time zone of the host is a parameter: \<open>tz t True\<close> is the offset of local time from
  UTC, in milliseconds, at the UTC time \<open>t\<close>, and \<open>tz t False\<close> the offset at the local
  time \<open>t\<close> (the standard's \<open>LocalTZA\<close>).
\<close>

type_synonym tz = "int \<Rightarrow> bool \<Rightarrow> int"

definition LocalTime :: "tz \<Rightarrow> int \<Rightarrow> int" where
  "LocalTime tz t = t + tz t True"

definition UTC :: "tz \<Rightarrow> int \<Rightarrow> int" where
  "UTC tz t = t - tz t False"

definition MakeTime :: "int \<Rightarrow> int \<Rightarrow> int \<Rightarrow> int \<Rightarrow> int" where
  "MakeTime h m s milli = h * msPerHour + m * msPerMinute + s * msPerSecond + milli"

definition getDay :: "tz \<Rightarrow> date \<Rightarrow> number" where
  "getDay tz d = map_option (\<lambda>t. WeekDay (LocalTime tz t)) d"

definition getDate :: "tz \<Rightarrow> date \<Rightarrow> number" where
  "getDate tz d = map_option (\<lambda>t. DateFromTime (LocalTime tz t)) d"

definition setHours :: "tz \<Rightarrow> date \<Rightarrow> int \<Rightarrow> int \<Rightarrow> int \<Rightarrow> int \<Rightarrow> date" where
  "setHours tz d h m s milli =
     (case d of
        None \<Rightarrow> None
      | Some t \<Rightarrow> TimeClip (UTC tz (MakeDate (Day (LocalTime tz t)) (MakeTime h m s milli))))"

definition setDate :: "tz \<Rightarrow> date \<Rightarrow> number \<Rightarrow> date" where
  "setDate tz d dt =
     (case d of
        None \<Rightarrow> None
      | Some t \<Rightarrow>
          (case dt of
             None \<Rightarrow> None
           | Some n \<Rightarrow>
               (let lt = LocalTime tz t
                in TimeClip (UTC tz (MakeDate (MakeDay (YearFromTime lt) (MonthFromTime lt) n)
                                       (TimeWithinDay lt))))))"

text \<open>Comparing two Dates with \<^verbatim>\<open>>=\<close> and \<^verbatim>\<open><\<close>: false as soon as one is invalid.\<close>

definition date_ge :: "date \<Rightarrow> date \<Rightarrow> bool" where
  "date_ge a b = (case a of None \<Rightarrow> False | Some x \<Rightarrow> (case b of None \<Rightarrow> False | Some y \<Rightarrow> y \<le> x))"

definition date_lt :: "date \<Rightarrow> date \<Rightarrow> bool" where
  "date_lt a b = (case a of None \<Rightarrow> False | Some x \<Rightarrow> (case b of None \<Rightarrow> False | Some y \<Rightarrow> x < y))"

text \<open>Subtraction of numbers, and the remainder operator \<^verbatim>\<open>%\<close>, which truncates.\<close>

definition num_sub :: "number \<Rightarrow> number \<Rightarrow> number" where
  "num_sub a b = (case a of None \<Rightarrow> None | Some x \<Rightarrow> map_option (\<lambda>y. x - y) b)"

definition js_rem :: "int \<Rightarrow> int \<Rightarrow> int" where
  "js_rem a b = sgn a * (\<bar>a\<bar> mod \<bar>b\<bar>)"

text \<open>\<^verbatim>\<open>Date.prototype.toISOString\<close>, which throws on an invalid Date.\<close>

datatype js_error = RangeError

definition pad_to :: "nat \<Rightarrow> int \<Rightarrow> string" where
  "pad_to w n = padStart w (CHR ''0'') (digits (nat n))"

definition toISOString :: "date \<Rightarrow> js_error + string" where
  "toISOString d =
     (case d of
        None \<Rightarrow> Inl RangeError
      | Some t \<Rightarrow>
          (let y = YearFromTime t
           in Inr ((if 0 \<le> y \<and> y \<le> 9999 then pad_to 4 y
                    else (if y < 0 then ''-'' else ''+'') @ pad_to 6 \<bar>y\<bar>) @
                   ''-'' @ pad_to 2 (MonthFromTime t + 1) @ ''-'' @ pad_to 2 (DateFromTime t) @
                   ''T'' @ pad_to 2 (HourFromTime t) @ '':'' @ pad_to 2 (MinFromTime t) @
                   '':'' @ pad_to 2 (SecFromTime t) @ ''.'' @ pad_to 3 (msFromTime t) @ ''Z'')))"

section \<open>The events list: weeks\<close>

definition WEEK_START :: int where
  "WEEK_START = 1"

definition startOfWeek :: "tz \<Rightarrow> date \<Rightarrow> date" where
  "startOfWeek tz d =
     (let date0 = d;
          day = map_option (\<lambda>g. js_rem (g - WEEK_START + 7) 7) (getDay tz date0);
          date1 = setHours tz date0 0 0 0 0;
          date2 = setDate tz date1 (num_sub (getDate tz date1) day)
      in date2)"

definition endOfWeek :: "tz \<Rightarrow> date \<Rightarrow> date" where
  "endOfWeek tz d =
     (let s = startOfWeek tz d;
          e = s
      in setDate tz e (num_add (getDate tz e) 7))"

text \<open>
  The events of the week view. The component reads the clock twice, once for each end of
  the week: \<open>now1\<close> and \<open>now2\<close>.
\<close>

definition weekEvents ::
  "(string \<Rightarrow> date) \<Rightarrow> tz \<Rightarrow> date \<Rightarrow> date \<Rightarrow> EventRow list \<Rightarrow> EventRow list"
where
  "weekEvents parse tz now1 now2 events =
     (let weekStart = startOfWeek tz now1;
          weekEnd = endOfWeek tz now2
      in filter (\<lambda>ev. let s = parse (start_ts ev) in date_ge s weekStart \<and> date_lt s weekEnd)
           events)"

text \<open>A zone whose offset from UTC never changes.\<close>

definition fixed_zone :: "int \<Rightarrow> tz" where
  "fixed_zone c = (\<lambda>t isUTC. c)"

text \<open>
  A zone five hours behind UTC that moves its clocks forward by one hour at
  2025-03-09T07:00:00Z, which is 02:00 on its own clocks. The local hour from 02:00 to
  03:00 of that day does not exist; a local time in it is read with the offset from
  before the change, as the standard asks.
\<close>

definition spring_forward_zone :: tz where
  "spring_forward_zone =
     (\<lambda>t isUTC. if isUTC then (if t < 1741503600000 then - 18000000 else - 14400000)
                 else (if t < 1741489200000 then - 18000000 else - 14400000))"

section \<open>The events list: groups by day\<close>

definition dayKey :: "(string \<Rightarrow> date) \<Rightarrow> EventRow \<Rightarrow> js_error + string" where
  "dayKey parse ev =
     (case toISOString (parse (start_ts ev)) of
        Inl err \<Rightarrow> Inl err
      | Inr s \<Rightarrow> Inr (take 10 s))"

text \<open>
  The calendar day of an instant, in UTC, as the text \<^verbatim>\<open>YYYY-MM-DD\<close>: the day key as
  the specification words it.
\<close>

definition utc_date_spec :: "int \<Rightarrow> string" where
  "utc_date_spec t =
     four_digits (YearFromTime t) @ ''-'' @ two_digits (MonthFromTime t + 1) @ ''-'' @
     two_digits (DateFromTime t)"

text \<open>
  The \<^verbatim>\<open>Map\<close> from day key to rows keeps its keys in the order of their first insertion:
  a list of pairs with distinct keys. One round of the loop adds the key with an empty
  array when it is new, then appends the event to the array under the key.
\<close>

type_synonym day_map = "(string \<times> EventRow list) list"

definition map_has :: "day_map \<Rightarrow> string \<Rightarrow> bool" where
  "map_has m k = (k \<in> fst ` set m)"

definition map_push :: "day_map \<Rightarrow> string \<Rightarrow> EventRow \<Rightarrow> day_map" where
  "map_push m k ev =
     (let m1 = (if \<not> map_has m k then m @ [(k, [])] else m)
      in map (\<lambda>(k', rows). if k' = k then (k', rows @ [ev]) else (k', rows)) m1)"

fun group_loop :: "(string \<Rightarrow> date) \<Rightarrow> day_map \<Rightarrow> EventRow list \<Rightarrow> js_error + day_map" where
  "group_loop parse m [] = Inr m"
| "group_loop parse m (ev # evs) =
     (case dayKey parse ev of
        Inl err \<Rightarrow> Inl err
      | Inr k \<Rightarrow> group_loop parse (map_push m k ev) evs)"

text \<open>
  \<^verbatim>\<open>Array.prototype.sort\<close> with a comparison function: a stable sort, here by insertion.
  An element goes before the first element that it does not compare greater than.
\<close>

fun insort_cmp :: "('a \<Rightarrow> 'a \<Rightarrow> int) \<Rightarrow> 'a \<Rightarrow> 'a list \<Rightarrow> 'a list" where
  "insort_cmp cmp x [] = [x]"
| "insort_cmp cmp x (y # ys) = (if cmp x y \<le> 0 then x # y # ys else y # insort_cmp cmp x ys)"

definition sort_cmp :: "('a \<Rightarrow> 'a \<Rightarrow> int) \<Rightarrow> 'a list \<Rightarrow> 'a list" where
  "sort_cmp cmp xs = foldr (insort_cmp cmp) xs []"

text \<open>
  The grouping of the list view; \<open>localeCompare\<close> is the string comparison of the host.
\<close>

definition groups ::
  "(string \<Rightarrow> date) \<Rightarrow> (string \<Rightarrow> string \<Rightarrow> int) \<Rightarrow> EventRow list \<Rightarrow> js_error + day_map"
where
  "groups parse localeCompare events =
     (case group_loop parse [] events of
        Inl err \<Rightarrow> Inl err
      | Inr m \<Rightarrow> Inr (sort_cmp (\<lambda>(a, _) (b, _). localeCompare a b) m))"

text \<open>
  What a comparison function must do for a sort to have a defined result: any two keys
  compare one way or the other, and transitively so.
\<close>

definition consistent_cmp :: "('a \<Rightarrow> 'a \<Rightarrow> int) \<Rightarrow> bool" where
  "consistent_cmp cmp =
     ((\<forall>a b. cmp a b \<le> 0 \<or> cmp b a \<le> 0) \<and>
      (\<forall>a b c. cmp a b \<le> 0 \<and> cmp b c \<le> 0 \<longrightarrow> cmp a c \<le> 0))"

text \<open>A comparison by code units, for the scenarios.\<close>

definition unit_compare :: "string \<Rightarrow> string \<Rightarrow> int" where
  "unit_compare a b = (if a < b then - 1 else if a = b then 0 else 1)"

text \<open>
  The two events of the specification's grouping scenario, on 2025-01-01 at 10:00Z and at
  23:00Z, and the reading of their timestamps.
\<close>

definition morning :: EventRow where
  "morning = \<lparr>ev_id = ''m'', title = ''Breakfast'', start_ts = ''2025-01-01T10:00:00Z'',
               end_ts = ''2025-01-01T11:00:00Z'', venue = None\<rparr>"

definition evening :: EventRow where
  "evening = \<lparr>ev_id = ''n'', title = ''Dinner'', start_ts = ''2025-01-01T23:00:00Z'',
               end_ts = ''2025-01-01T23:30:00Z'', venue = None\<rparr>"

definition new_year_parse :: "string \<Rightarrow> date" where
  "new_year_parse s =
     (if s = ''2025-01-01T10:00:00Z'' then Some 1735725600000
      else if s = ''2025-01-01T23:00:00Z'' then Some 1735772400000
      else None)"

section \<open>The events list: the calendar link\<close>




text \<open>
  \<^verbatim>\<open>toString\<close> serializes the pairs as a form: each name and value is encoded to UTF-8
  and then byte by byte. A space becomes \<^verbatim>\<open>+\<close>; the ASCII letters and digits and
  \<^verbatim>\<open>* - . _\<close> stay; any other byte becomes \<^verbatim>\<open>%\<close> and two upper-case hexadecimal
  digits. A code unit below 128 is one byte, a code unit from 128 to 255 two bytes.
\<close>

definition hexdigit :: "nat \<Rightarrow> char" where
  "hexdigit k = ''0123456789ABCDEF'' ! k"

definition percent :: "nat \<Rightarrow> string" where
  "percent b = [CHR ''%'', hexdigit (b div 16), hexdigit (b mod 16)]"

definition utf8_bytes :: "char \<Rightarrow> nat list" where
  "utf8_bytes c =
     (let n = of_char c :: nat in if n < 128 then [n] else [192 + n div 64, 128 + n mod 64])"

definition url_safe :: "char \<Rightarrow> bool" where
  "url_safe c =
     ((CHR ''a'' \<le> c \<and> c \<le> CHR ''z'') \<or> (CHR ''A'' \<le> c \<and> c \<le> CHR ''Z'') \<or>
      (CHR ''0'' \<le> c \<and> c \<le> CHR ''9'') \<or> c = CHR ''*'' \<or> c = CHR ''-'' \<or> c = CHR ''.'' \<or>
      c = CHR ''_'')"

definition urlencode_unit :: "char \<Rightarrow> string" where
  "urlencode_unit c =
     (if c = CHR '' '' then ''+''
      else if url_safe c then [c]
      else concat (map percent (utf8_bytes c)))"

definition urlencode :: "string \<Rightarrow> string" where
  "urlencode s = concat (map urlencode_unit s)"







text \<open>
  What the loop keeps true of the map, where \<open>seen\<close> are the events read so far: the keys
  are distinct, they are the day keys of the events read, and under each key stand the
  events read with that key, in the order in which they were read.
\<close>

definition grouped :: "(string \<Rightarrow> date) \<Rightarrow> day_map \<Rightarrow> EventRow list \<Rightarrow> bool" where
  "grouped parse m seen =
     (distinct (map fst m) \<and>
      fst ` set m = {k. \<exists>ev \<in> set seen. dayKey parse ev = Inr k} \<and>
      (\<forall>(k, rows) \<in> set m. rows = filter (\<lambda>ev. dayKey parse ev = Inr k) seen))"


section \<open>Escaping\<close>

lemma replace_char_Nil [simp]: "replace_char c r [] = []"
  by (simp add: replace_char_def)

lemma replace_char_Cons [simp]:
  "replace_char c r (x # xs) = (if x = c then r else [x]) @ replace_char c r xs"
  by (simp add: replace_char_def)

lemma replace_char_append [simp]:
  "replace_char c r (xs @ ys) = replace_char c r xs @ replace_char c r ys"
  by (simp add: replace_char_def)

lemma escapeIcsText_Nil [simp]: "escapeIcsText [] = []"
  by (simp add: escapeIcsText_def)

lemma escapeIcsText_Cons:
  "escapeIcsText (c # s) = escape_unit_spec c @ escapeIcsText s"
  by (simp add: escapeIcsText_def escape_unit_spec_def)

lemma escapeIcsText_single_pass: "escapeIcsText s = escape_spec s"
  by (induction s) (simp_all add: escapeIcsText_Cons escape_spec_def)

lemma escape_spec_unreserved: "set s \<inter> reserved = {} \<Longrightarrow> escape_spec s = s"
  by (induction s) (auto simp: escape_spec_def escape_unit_spec_def reserved_def)

text \<open>
  Claim C2. For every input text the four replacements, run in the order backslash,
  semicolon, comma, line feed, give the same result as escaping every reserved
  character once, so no backslash that a later replacement puts in is escaped again; the
  title \<^verbatim>\<open>Q&A; Session, Pt.1\<close> becomes \<^verbatim>\<open>Q&A\; Session\, Pt.1\<close>; and a text without
  reserved characters is returned as it is.
\<close>

theorem escapeIcsText_rule:
  "escapeIcsText s = escape_spec s \<and>
   escapeIcsText ''Q&A; Session, Pt.1'' =
     ''Q&A'' @ [BSL] @ ''; Session'' @ [BSL] @ '', Pt.1'' \<and>
   (set s \<inter> reserved = {} \<longrightarrow> escapeIcsText s = s)"
proof (intro conjI impI)
  show "escapeIcsText s = escape_spec s"
    by (rule escapeIcsText_single_pass)
  show "escapeIcsText ''Q&A; Session, Pt.1'' =
      ''Q&A'' @ [BSL] @ ''; Session'' @ [BSL] @ '', Pt.1''"
    by (simp add: escapeIcsText_def)
  show "escapeIcsText s = s" if "set s \<inter> reserved = {}"
    using that by (simp add: escapeIcsText_single_pass escape_spec_unreserved)
qed

theorem escapeIcsText_rule_witness:
  "set ''Welcome BBQ'' \<inter> reserved = {} \<and> escapeIcsText ''Welcome BBQ'' = ''Welcome BBQ'' \<and>
   escapeIcsText ''Welcome BBQ'' = escape_spec ''Welcome BBQ''"
proof -
  have h: "set ''Welcome BBQ'' \<inter> reserved = {}"
    by (simp add: reserved_def)
  from escapeIcsText_rule [of "''Welcome BBQ''"] h show ?thesis
    by blast
qed

section \<open>The two timestamp formatters\<close>

text \<open>
  Claim C10. The formatter of the calendar-file route and the formatter of the calendar
  link return the same text for every Date, valid or not.
\<close>

theorem toIcsUtc_eq_toGoogleDateUTC: "toIcsUtc d = toGoogleDateUTC d"
  by (simp add: toIcsUtc_def toGoogleDateUTC_def pad_ics_def pad_def)

section \<open>The calendar-file route: status and body\<close>

text \<open>
  Claim C5. Without an id, or with an empty one, the handler answers 400 with the plain
  text \<^verbatim>\<open>Missing event id\<close>; when the store reports an error or no row it answers 404
  with the plain text \<^verbatim>\<open>Event not found\<close>; otherwise it answers 200 and the body is the
  calendar text of the row the store returned for that id.
\<close>

theorem GET_status_body:
  "((ctx_id = None \<or> ctx_id = Some []) \<longrightarrow>
      status (GET parse now select_single ctx_id) = 400 \<and>
      body (GET parse now select_single ctx_id) = Text ''Missing event id'') \<and>
   (i \<noteq> [] \<and> (error (select_single i) \<noteq> None \<or> data (select_single i) = None) \<longrightarrow>
      status (GET parse now select_single (Some i)) = 404 \<and>
      body (GET parse now select_single (Some i)) = Text ''Event not found'') \<and>
   (i \<noteq> [] \<and> error (select_single i) = None \<and> data (select_single i) = Some ev \<longrightarrow>
      status (GET parse now select_single (Some i)) = 200 \<and>
      body (GET parse now select_single (Some i)) =
        Text (ics ev (parse (start_ts ev)) (parse (end_ts ev)) now))"
  by (auto simp: GET_def Let_def split: option.splits)

theorem GET_status_body_witness:
  "status (GET welcome_parse (Some 0) welcome_store None) = 400 \<and>
   status (GET welcome_parse (Some 0) welcome_store (Some ''e2'')) = 404 \<and>
   status (GET welcome_parse (Some 0) welcome_store (Some ''e1'')) = 200 \<and>
   body (GET welcome_parse (Some 0) welcome_store (Some ''e1'')) =
     Text (ics welcome_bbq (Some 1757091600000) (Some 1757098800000) (Some 0))"
proof -
  have a: "''e2'' \<noteq> [] \<and> (error (welcome_store ''e2'') \<noteq> None \<or> data (welcome_store ''e2'') = None)"
    by (simp add: welcome_store_def)
  have b: "''e1'' \<noteq> [] \<and> error (welcome_store ''e1'') = None \<and>
      data (welcome_store ''e1'') = Some welcome_bbq"
    by (simp add: welcome_store_def)
  have p: "welcome_parse (start_ts welcome_bbq) = Some 1757091600000"
    "welcome_parse (end_ts welcome_bbq) = Some 1757098800000"
    by (simp_all add: welcome_parse_def welcome_bbq_def)
  note e2 = GET_status_body [of None welcome_parse "Some 0" welcome_store "''e2''" welcome_bbq]
  note e1 = GET_status_body [of None welcome_parse "Some 0" welcome_store "''e1''" welcome_bbq]
  from e2 have "status (GET welcome_parse (Some 0) welcome_store None) = 400"
    by blast
  moreover from e2 a have "status (GET welcome_parse (Some 0) welcome_store (Some ''e2'')) = 404"
    by blast
  moreover from e1 b have "status (GET welcome_parse (Some 0) welcome_store (Some ''e1'')) = 200 \<and>
      body (GET welcome_parse (Some 0) welcome_store (Some ''e1'')) =
        Text (ics welcome_bbq (welcome_parse (start_ts welcome_bbq))
          (welcome_parse (end_ts welcome_bbq)) (Some 0))"
    by blast
  ultimately show ?thesis
    by (simp add: p)
qed

section \<open>The calendar-file route: headers and file name\<close>

text \<open>The characters the specification allows in the file name's title part.\<close>

lemma class_safe_iff:
  "class_safe c \<longleftrightarrow>
     c \<in> set (''abcdefghijklmnopqrstuvwxyz'' @ ''ABCDEFGHIJKLMNOPQRSTUVWXYZ'' @
              ''0123456789'' @ ''_-'')"
proof -
  have "\<forall>c. class_safe c \<longleftrightarrow>
     c \<in> set (''abcdefghijklmnopqrstuvwxyz'' @ ''ABCDEFGHIJKLMNOPQRSTUVWXYZ'' @
              ''0123456789'' @ ''_-'')"
    by code_simp
  then show ?thesis ..
qed

lemma safeTitle_chars: "c \<in> set (safeTitle t) \<Longrightarrow> class_safe c"
proof -
  assume "c \<in> set (safeTitle t)"
  then have "c \<in> set (map (\<lambda>c. if \<not> class_safe c then CHR ''_'' else c) t)"
    unfolding safeTitle_def by (rule in_set_takeD)
  then show "class_safe c"
    by (auto simp: class_safe_def)
qed

lemma safeTitle_sanitize_spec: "safeTitle t = sanitize_spec t"
proof -
  have "(if \<not> class_safe c then CHR ''_'' else c) = (if c \<in> title_chars then c else CHR ''_'')"
    for c
    using class_safe_iff [of c] by (simp add: title_chars_def)
  then show ?thesis
    by (simp add: safeTitle_def sanitize_spec_def take_map)
qed

text \<open>
  Claim C7. A response with status 200 carries the content type
  \<^verbatim>\<open>text/calendar; charset=utf-8\<close> and a content disposition whose file name is
  \<^verbatim>\<open>event-\<close>, the sanitized title of the returned row and \<^verbatim>\<open>.ics\<close>. For every title
  the sanitized title is the title's first 50 characters with each character other than
  an ASCII letter, a digit, an underscore or a hyphen replaced by an underscore; so it has
  at most 50 characters, each of them an ASCII letter, a digit, an underscore or a hyphen.
\<close>

theorem GET_headers_safeTitle:
  "(status (GET parse now select_single ctx_id) = 200 \<longrightarrow>
      (\<exists>i ev. ctx_id = Some i \<and> data (select_single i) = Some ev \<and>
         headers (GET parse now select_single ctx_id) =
           [(''Content-Type'', ''text/calendar; charset=utf-8''),
            (''Content-Disposition'',
               ''attachment; filename='' @ [DQ] @ ''event-'' @ safeTitle (title ev) @
               ''.ics'' @ [DQ])])) \<and>
   safeTitle t = sanitize_spec t \<and>
   set (safeTitle t) \<subseteq>
     set (''abcdefghijklmnopqrstuvwxyz'' @ ''ABCDEFGHIJKLMNOPQRSTUVWXYZ'' @
          ''0123456789'' @ ''_-'') \<and>
   length (safeTitle t) \<le> 50"
proof (intro conjI impI)
  assume "status (GET parse now select_single ctx_id) = 200"
  then show "\<exists>i ev. ctx_id = Some i \<and> data (select_single i) = Some ev \<and>
         headers (GET parse now select_single ctx_id) =
           [(''Content-Type'', ''text/calendar; charset=utf-8''),
            (''Content-Disposition'',
               ''attachment; filename='' @ [DQ] @ ''event-'' @ safeTitle (title ev) @
               ''.ics'' @ [DQ])]"
    by (auto simp: GET_def Let_def split: option.splits if_splits)
next
  show "safeTitle t = sanitize_spec t"
    by (rule safeTitle_sanitize_spec)
next
  show "set (safeTitle t) \<subseteq>
     set (''abcdefghijklmnopqrstuvwxyz'' @ ''ABCDEFGHIJKLMNOPQRSTUVWXYZ'' @
          ''0123456789'' @ ''_-'')"
    using safeTitle_chars class_safe_iff by blast
next
  show "length (safeTitle t) \<le> 50"
    by (simp add: safeTitle_def)
qed

theorem GET_headers_safeTitle_witness:
  "status (GET welcome_parse (Some 0) welcome_store (Some ''e1'')) = 200 \<and>
   headers (GET welcome_parse (Some 0) welcome_store (Some ''e1'')) =
     [(''Content-Type'', ''text/calendar; charset=utf-8''),
      (''Content-Disposition'',
         ''attachment; filename='' @ [DQ] @ ''event-Welcome_BBQ.ics'' @ [DQ])] \<and>
   safeTitle ''Welcome BBQ'' = ''Welcome_BBQ''"
proof -
  note w = GET_headers_safeTitle [of welcome_parse "Some 0" welcome_store "Some ''e1''"
      "''Welcome BBQ''"]
  have s: "status (GET welcome_parse (Some 0) welcome_store (Some ''e1'')) = 200"
    by (simp add: GET_def welcome_store_def Let_def)
  have d: "data (welcome_store i) = Some ev \<Longrightarrow> ev = welcome_bbq" for i ev
    by (simp add: welcome_store_def split: if_splits)
  have "sanitize_spec ''Welcome BBQ'' = ''Welcome_BBQ''"
    by (simp add: sanitize_spec_def title_chars_def)
  with w have t: "safeTitle ''Welcome BBQ'' = ''Welcome_BBQ''"
    by simp
  from w s
  obtain i ev where "data (welcome_store i) = Some ev"
    and h: "headers (GET welcome_parse (Some 0) welcome_store (Some ''e1'')) =
           [(''Content-Type'', ''text/calendar; charset=utf-8''),
            (''Content-Disposition'',
               ''attachment; filename='' @ [DQ] @ ''event-'' @ safeTitle (title ev) @
               ''.ics'' @ [DQ])]"
    by blast
  then have "ev = welcome_bbq" using d by blast
  then have "title ev = ''Welcome BBQ''"
    by (simp add: welcome_bbq_def)
  with h t s show ?thesis by simp
qed

section \<open>The event creation route: status and body\<close>



section \<open>The calendar arithmetic of the runtime\<close>

lemma int_div_bounds:
  fixes x n :: int
  shows "0 < n \<Longrightarrow> n * (x div n) \<le> x" and "0 < n \<Longrightarrow> x < n * (x div n) + n"
proof -
  have "x = n * (x div n) + x mod n" by simp
  moreover have "0 < n \<Longrightarrow> 0 \<le> x mod n" "0 < n \<Longrightarrow> x mod n < n" by simp_all
  ultimately show "0 < n \<Longrightarrow> n * (x div n) \<le> x" and "0 < n \<Longrightarrow> x < n * (x div n) + n"
    by linarith+
qed

lemma DayFromYear_upper: "400 * DayFromYear y \<le> 146097 * (y - 1970) + 589"
  unfolding DayFromYear_def
  using int_div_bounds [of 4 "y - 1969"] int_div_bounds [of 100 "y - 1901"]
    int_div_bounds [of 400 "y - 1601"]
  by simp

lemma DayFromYear_lower: "146097 * (y - 1970) - 506 \<le> 400 * DayFromYear y"
  unfolding DayFromYear_def
  using int_div_bounds [of 4 "y - 1969"] int_div_bounds [of 100 "y - 1901"]
    int_div_bounds [of 400 "y - 1601"]
  by simp

text \<open>The year computed is the one the standard asks for: its first day is the last first
  day of a year that is not after the given time.\<close>

lemma YearFromTime_bounds:
  "DayFromYear (YearFromTime t) \<le> Day t \<and> Day t < DayFromYear (YearFromTime t + 1)"
proof -
  define d where "d = Day t"
  define y where "y = 1970 + (400 * d) div 146097"
  have e1: "146097 * (y - 1970) \<le> 400 * d" and e2: "400 * d < 146097 * (y - 1970) + 146097"
    unfolding y_def using int_div_bounds [of 146097 "400 * d"] by simp_all
  have lo: "DayFromYear (y - 1) \<le> d"
    using DayFromYear_upper [of "y - 1"] e1 by (simp add: algebra_simps)
  have hi: "d < DayFromYear (y + 2)"
    using DayFromYear_lower [of "y + 2"] e2 by (simp add: algebra_simps)
  have Y: "YearFromTime t = (if DayFromYear (y + 1) \<le> d then y + 1
         else if DayFromYear y \<le> d then y else y - 1)"
    by (simp add: YearFromTime_def Let_def d_def y_def)
  show ?thesis
    unfolding Y d_def [symmetric] using lo hi by (auto simp: add.commute)
qed

lemma div_succ:
  fixes x n :: int
  assumes "0 < n"
  shows "(x + 1) div n = x div n + (if (x + 1) mod n = 0 then 1 else 0)"
proof (cases "x mod n = n - 1")
  case True
  have x: "x = n * (x div n) + x mod n" by simp
  have e: "x + 1 = n * (x div n + 1) + 0"
    using x True by (simp add: algebra_simps)
  have "(x + 1) div n = x div n + 1"
    using assms by (subst e) (rule int_div_pos_eq [where r = 0], simp_all)
  moreover have "(x + 1) mod n = 0"
    by (subst e) simp
  ultimately show ?thesis by simp
next
  case False
  have r: "0 \<le> x mod n" "x mod n < n" using assms by simp_all
  have e: "x + 1 = n * (x div n) + (x mod n + 1)" by simp
  have "(x + 1) div n = x div n"
    using r False by (subst e) (rule int_div_pos_eq [where r = "x mod n + 1"], simp_all)
  moreover have "(x + 1) mod n = x mod n + 1"
    using r False by (subst e) (rule int_mod_pos_eq [where q = "x div n"], simp_all)
  ultimately show ?thesis using r by simp
qed

lemma mod_shift: "(y - n * k) mod n = y mod n" for y n k :: int
  using mod_mult_self2 [of y n "- k"] by simp

lemma DayFromYear_step: "DayFromYear (y + 1) = DayFromYear y + DaysInYear y"
proof -
  have a: "(y - 1968) div 4 = (y - 1969) div 4 + (if y mod 4 = 0 then 1 else 0)"
    using div_succ [of 4 "y - 1969"] mod_shift [of y 4 492] by simp
  have b: "(y - 1900) div 100 = (y - 1901) div 100 + (if y mod 100 = 0 then 1 else 0)"
    using div_succ [of 100 "y - 1901"] mod_shift [of y 100 19] by simp
  have c: "(y - 1600) div 400 = (y - 1601) div 400 + (if y mod 400 = 0 then 1 else 0)"
    using div_succ [of 400 "y - 1601"] mod_shift [of y 400 4] by simp
  have m1: "y mod 4 = 0" if "y mod 100 = 0"
    using that mod_mod_cancel [of 4 100 y] by simp
  have m2: "y mod 100 = 0" if "y mod 400 = 0"
    using that mod_mod_cancel [of 100 400 y] by simp
  have "DayFromYear (y + 1) =
      365 * (y - 1970) + 365 + (y - 1968) div 4 - (y - 1900) div 100 + (y - 1600) div 400"
    by (simp add: DayFromYear_def algebra_simps)
  then show ?thesis
    using m1 m2 by (simp add: a b c DayFromYear_def DaysInYear_def)
qed

lemma DayWithinYear_bounds:
  "0 \<le> DayWithinYear t \<and> DayWithinYear t < 365 + InLeapYear t"
proof -
  have "DaysInYear y = 365 \<or> DaysInYear y = 366" for y
    by (simp add: DaysInYear_def)
  then have "DaysInYear (YearFromTime t) = 365 + InLeapYear t"
    by (auto simp: InLeapYear_def)
  then show ?thesis
    using YearFromTime_bounds [of t] DayFromYear_step [of "YearFromTime t"]
    by (simp add: DayWithinYear_def)
qed

lemma InLeapYear_cases: "InLeapYear t = 0 \<or> InLeapYear t = 1"
  by (simp add: InLeapYear_def)

lemma MonthFromTime_range: "0 \<le> MonthFromTime t \<and> MonthFromTime t \<le> 11"
  by (simp add: MonthFromTime_def Let_def)

lemma DateFromTime_range: "1 \<le> DateFromTime t \<and> DateFromTime t \<le> 31"
  using DayWithinYear_bounds [of t] InLeapYear_cases [of t]
  by (auto simp: DateFromTime_def MonthFromTime_def month_start_def Let_def)

lemma HourFromTime_range: "0 \<le> HourFromTime t \<and> HourFromTime t \<le> 23"
  by (simp add: HourFromTime_def)

lemma MinFromTime_range: "0 \<le> MinFromTime t \<and> MinFromTime t \<le> 59"
  by (simp add: MinFromTime_def)

lemma SecFromTime_range: "0 \<le> SecFromTime t \<and> SecFromTime t \<le> 59"
  by (simp add: SecFromTime_def)

section \<open>Numbers as text\<close>

lemma digits_one: "n < 10 \<Longrightarrow> digits n = [''0123456789'' ! n]"
  by (subst digits.simps) simp

lemma digits_more: "10 \<le> n \<Longrightarrow> digits n = digits (n div 10) @ [''0123456789'' ! (n mod 10)]"
  by (subst digits.simps) simp

lemma nat_mod_10: "0 \<le> n \<Longrightarrow> nat n mod 10 = nat (n mod 10)"
  by (simp add: nat_mod_distrib)

lemma nat_div_10: "0 \<le> n \<Longrightarrow> nat n div 10 = nat (n div 10)"
  by (simp add: nat_div_distrib)

lemma pad_two_digits:
  assumes "0 \<le> n" "n \<le> 99"
  shows "padStart 2 (CHR ''0'') (Number_toString (Some n)) = two_digits n"
proof (cases "n < 10")
  case True
  then have "digits (nat n) = [''0123456789'' ! nat n]"
    using assms by (simp add: digits_one)
  moreover have "n div 10 = 0" "n mod 10 = n" using True assms by simp_all
  ultimately show ?thesis
    using assms by (simp add: padStart_def Number_toString_def two_digits_def digit_def)
next
  case False
  then have "digits (nat n) = digits (nat (n div 10)) @ [''0123456789'' ! nat (n mod 10)]"
    using assms by (simp add: digits_more nat_mod_10 nat_div_10)
  moreover have "n div 10 < 10" "0 \<le> n div 10" using assms by simp_all
  then have "digits (nat (n div 10)) = [''0123456789'' ! nat (n div 10)]"
    "(n div 10) mod 10 = n div 10"
    by (simp_all add: digits_one)
  ultimately show ?thesis
    using assms by (simp add: padStart_def Number_toString_def two_digits_def digit_def)
qed

lemma year_four_digits:
  assumes "1000 \<le> y" "y \<le> 9999"
  shows "Number_toString (Some y) = four_digits y"
proof -
  define a where "a = y div 10"
  define b where "b = a div 10"
  define c where "c = b div 10"
  have b: "y div 100 = b"
    using zdiv_zmult2_eq [of 10 y 10] by (simp add: a_def b_def)
  have c: "y div 1000 = c"
    using zdiv_zmult2_eq [of 10 y 100] b by (simp add: c_def mult.commute)
  have r: "100 \<le> a" "10 \<le> b" "0 \<le> c" "c < 10"
    using assms by (simp_all add: a_def b_def c_def)
  have 1: "digits (nat y) = digits (nat a) @ [''0123456789'' ! nat (y mod 10)]"
    using assms by (simp add: digits_more nat_mod_10 nat_div_10 a_def)
  have 2: "digits (nat a) = digits (nat b) @ [''0123456789'' ! nat (a mod 10)]"
    using r by (simp add: digits_more nat_mod_10 nat_div_10 b_def)
  have 3: "digits (nat b) = digits (nat c) @ [''0123456789'' ! nat (b mod 10)]"
    using r by (simp add: digits_more nat_mod_10 nat_div_10 c_def)
  have 4: "digits (nat c) = [''0123456789'' ! nat (c mod 10)]"
    using r by (simp add: digits_one)
  have "four_digits y = [digit c, digit b, digit a, digit y]"
    by (simp add: four_digits_def b c a_def)
  then show ?thesis
    using assms by (simp add: Number_toString_def digit_def 1 2 3 4)
qed

lemma toIcsUtc_compact:
  assumes "1000 \<le> YearFromTime t" "YearFromTime t \<le> 9999"
  shows "toIcsUtc (Some t) = compact_utc_spec t"
  using assms MonthFromTime_range [of t] DateFromTime_range [of t] HourFromTime_range [of t]
    MinFromTime_range [of t] SecFromTime_range [of t]
  by (simp add: toIcsUtc_def compact_utc_spec_def pad_ics_def getUTCFullYear_def
      getUTCMonth_def getUTCDate_def getUTCHours_def getUTCMinutes_def getUTCSeconds_def
      num_add_def pad_two_digits year_four_digits)

section \<open>Lines and line feeds\<close>

lemma digits_chars: "set (digits n) \<subseteq> set ''0123456789''"
proof (induction n rule: digits.induct)
  case (1 n)
  have nth: "''0123456789'' ! k \<in> set ''0123456789''" if "k < 10" for k
    using that nth_mem [of k "''0123456789''"] by simp
  show ?case
  proof (cases "n < 10")
    case True
    then show ?thesis using nth [of n] by (subst digits.simps) simp
  next
    case False
    then have "set (digits (n div 10)) \<subseteq> set ''0123456789''" using 1 by simp
    moreover have "''0123456789'' ! (n mod 10) \<in> set ''0123456789''" using nth [of "n mod 10"] by simp
    ultimately show ?thesis using False by (subst digits.simps) simp
  qed
qed

lemma Number_toString_no_LF: "LF \<notin> set (Number_toString n)"
  using digits_chars by (cases n) (auto simp: Number_toString_def)

lemma pad_ics_no_LF: "LF \<notin> set (pad_ics n)"
  using Number_toString_no_LF [of n] by (auto simp: pad_ics_def padStart_def)

lemma toIcsUtc_no_LF: "LF \<notin> set (toIcsUtc d)"
  by (simp add: toIcsUtc_def Number_toString_no_LF pad_ics_no_LF)

lemma escapeIcsText_no_LF: "LF \<notin> set (escapeIcsText s)"
  by (induction s) (auto simp: escapeIcsText_Cons escape_unit_spec_def)

lemma lines_crlf_plain: "LF \<notin> set l \<Longrightarrow> lines_crlf l = [l]"
proof (induction l rule: lines_crlf.induct)
  case 1
  then show ?case by simp
next
  case (2 c)
  then show ?case by simp
next
  case (3 c d cs)
  then show ?case by auto
qed

lemma lines_crlf_line:
  "LF \<notin> set l \<Longrightarrow> lines_crlf (l @ CR # LF # rest) = l # lines_crlf rest"
proof (induction l)
  case Nil
  then show ?case by simp
next
  case (Cons c l)
  then have ih: "lines_crlf (l @ CR # LF # rest) = l # lines_crlf rest" by simp
  obtain d cs where dcs: "l @ CR # LF # rest = d # cs" by (cases l) auto
  have "d \<noteq> LF" using Cons.prems dcs by (cases l) auto
  then show ?case using ih dcs by simp
qed

lemma lines_crlf_join:
  "ls \<noteq> [] \<Longrightarrow> \<forall>l \<in> set ls. LF \<notin> set l \<Longrightarrow> lines_crlf (join [CR, LF] ls) = ls"
proof (induction "[CR, LF]" ls rule: join.induct)
  case 1
  then show ?case by simp
next
  case (2 x)
  then show ?case by (simp add: lines_crlf_plain)
next
  case (3 x y ys)
  then show ?case by (simp add: lines_crlf_line)
qed

lemma no_bare_lf_plain: "LF \<notin> set l \<Longrightarrow> no_bare_lf l"
  by (induction l rule: no_bare_lf.induct) auto

lemma no_bare_lf_line:
  "LF \<notin> set l \<Longrightarrow> no_bare_lf (l @ CR # LF # rest) = no_bare_lf rest"
proof (induction l)
  case Nil
  then show ?case by simp
next
  case (Cons c l)
  then have ih: "no_bare_lf (l @ CR # LF # rest) = no_bare_lf rest" by simp
  obtain d cs where dcs: "l @ CR # LF # rest = d # cs" by (cases l) auto
  have "d \<noteq> LF" using Cons.prems dcs by (cases l) auto
  moreover have "c \<noteq> LF" using Cons.prems by auto
  ultimately show ?case using ih dcs by simp
qed

lemma no_bare_lf_join:
  "\<forall>l \<in> set ls. LF \<notin> set l \<Longrightarrow> no_bare_lf (join [CR, LF] ls)"
proof (induction "[CR, LF]" ls rule: join.induct)
  case 1
  then show ?case by simp
next
  case (2 x)
  then show ?case by (simp add: no_bare_lf_plain)
next
  case (3 x y ys)
  then show ?case by (simp add: no_bare_lf_line)
qed

section \<open>The calendar text\<close>

lemma toIcsUtc_welcome_start: "toIcsUtc (Some 1757091600000) = ''20250905T170000Z''"
  by code_simp

lemma toIcsUtc_welcome_end: "toIcsUtc (Some 1757098800000) = ''20250905T190000Z''"
  by code_simp

lemma toIcsUtc_epoch: "toIcsUtc (Some 0) = ''19700101T000000Z''"
  by code_simp

lemma toIcsUtc_year_10000: "toIcsUtc (Some 253402300800000) = ''100000101T000000Z''"
proof -
  have y: "YearFromTime 253402300800000 = 10000"
    by (simp add: YearFromTime_def Day_def msPerDay_def DayFromYear_def Let_def)
  have m: "MonthFromTime 253402300800000 = 0"
    by (simp add: MonthFromTime_def DayWithinYear_def InLeapYear_def DaysInYear_def y Day_def
        msPerDay_def DayFromYear_def Let_def)
  have d: "DateFromTime 253402300800000 = 1"
    by (simp add: DateFromTime_def m month_start_def DayWithinYear_def InLeapYear_def
        DaysInYear_def y Day_def msPerDay_def DayFromYear_def Let_def)
  show ?thesis
    by (simp add: toIcsUtc_def getUTCFullYear_def getUTCMonth_def getUTCDate_def
        getUTCHours_def getUTCMinutes_def getUTCSeconds_def num_add_def pad_ics_def padStart_def
        Number_toString_def y m d HourFromTime_def MinFromTime_def SecFromTime_def
        msPerHour_def msPerMinute_def msPerSecond_def digits.simps)
qed

lemma toIcsUtc_year_999: "toIcsUtc (Some (- 30610224000001)) = ''9991231T235959Z''"
  by code_simp

lemma ics_lines_no_LF:
  assumes "LF \<notin> set (ev_id ev)"
  shows "\<forall>l \<in> set (ics_lines ev start end now). LF \<notin> set l"
  using assms by (simp add: ics_lines_def toIcsUtc_no_LF escapeIcsText_no_LF)

lemma ics_unfold:
  "ics ev start end now =
     ''BEGIN:VCALENDAR'' @ [CR, LF] @
     ''VERSION:2.0'' @ [CR, LF] @
     ''PRODID:-//MCC Events//EN'' @ [CR, LF] @
     ''CALSCALE:GREGORIAN'' @ [CR, LF] @
     ''METHOD:PUBLISH'' @ [CR, LF] @
     ''BEGIN:VEVENT'' @ [CR, LF] @
     ''UID:'' @ ev_id ev @ ''@mcc-events'' @ [CR, LF] @
     ''DTSTAMP:'' @ toIcsUtc now @ [CR, LF] @
     ''DTSTART:'' @ toIcsUtc start @ [CR, LF] @
     ''DTEND:'' @ toIcsUtc end @ [CR, LF] @
     ''SUMMARY:'' @ escapeIcsText (title ev) @ [CR, LF] @
     ''LOCATION:'' @ (case venue ev of None \<Rightarrow> [] | Some v \<Rightarrow> escapeIcsText v) @ [CR, LF] @
     ''END:VEVENT'' @ [CR, LF] @
     ''END:VCALENDAR'' @ [CR, LF]"
  by (simp add: ics_def ics_lines_def split: option.split)

text \<open>
  Claim C1, amended. For every event record whose id holds no line feed, the calendar
  text begins with the line \<^verbatim>\<open>BEGIN:VCALENDAR\<close>, its last line is \<^verbatim>\<open>END:VCALENDAR\<close>,
  every line ends with CR LF and no line feed stands without its carriage return, and cut
  at CR LF the text has exactly the lines the serializer wrote: one \<^verbatim>\<open>BEGIN:VEVENT\<close>,
  the sixth line, and one \<^verbatim>\<open>END:VEVENT\<close>, the thirteenth.
\<close>

theorem ics_one_event_crlf:
  assumes "LF \<notin> set (ev_id ev)"
  shows "prefix (''BEGIN:VCALENDAR'' @ [CR, LF]) (ics ev start end now) \<and>
         suffix (''END:VCALENDAR'' @ [CR, LF]) (ics ev start end now) \<and>
         no_bare_lf (ics ev start end now) \<and>
         lines_crlf (ics ev start end now) = ics_lines ev start end now \<and>
         count_list (lines_crlf (ics ev start end now)) ''BEGIN:VEVENT'' = 1 \<and>
         count_list (lines_crlf (ics ev start end now)) ''END:VEVENT'' = 1 \<and>
         lines_crlf (ics ev start end now) ! 5 = ''BEGIN:VEVENT'' \<and>
         lines_crlf (ics ev start end now) ! 12 = ''END:VEVENT''"
proof -
  have free: "\<forall>l \<in> set (ics_lines ev start end now). LF \<notin> set l"
    using assms by (rule ics_lines_no_LF)
  have ne: "ics_lines ev start end now \<noteq> []"
    by (simp add: ics_lines_def)
  have ls: "lines_crlf (ics ev start end now) = ics_lines ev start end now"
    unfolding ics_def using ne free by (rule lines_crlf_join)
  have "prefix (''BEGIN:VCALENDAR'' @ [CR, LF]) (ics ev start end now)"
    by (simp add: ics_def ics_lines_def)
  moreover have "suffix (''END:VCALENDAR'' @ [CR, LF]) (ics ev start end now)"
    unfolding ics_unfold suffix_def by (simp split: option.split)
  moreover have "no_bare_lf (ics ev start end now)"
    unfolding ics_def using free by (rule no_bare_lf_join)
  moreover have "count_list (ics_lines ev start end now) ''BEGIN:VEVENT'' = 1"
    "count_list (ics_lines ev start end now) ''END:VEVENT'' = 1"
    "ics_lines ev start end now ! 5 = ''BEGIN:VEVENT''"
    "ics_lines ev start end now ! 12 = ''END:VEVENT''"
    by (simp_all add: ics_lines_def)
  ultimately show ?thesis
    using ls by simp
qed

theorem ics_one_event_crlf_witness:
  "LF \<notin> set (ev_id welcome_bbq) \<and>
   no_bare_lf (ics welcome_bbq (Some 1757091600000) (Some 1757098800000) (Some 0)) \<and>
   count_list (lines_crlf (ics welcome_bbq (Some 1757091600000) (Some 1757098800000) (Some 0)))
     ''BEGIN:VEVENT'' = 1"
proof -
  have h: "LF \<notin> set (ev_id welcome_bbq)"
    by (simp add: welcome_bbq_def)
  from ics_one_event_crlf [OF h, of "Some 1757091600000" "Some 1757098800000" "Some 0"] h
  show ?thesis by blast
qed

theorem ics_one_event_crlf_counterexample:
  "\<not> no_bare_lf
       (ics \<lparr>ev_id = ''a'' @ [LF] @ ''b'', title = ''Welcome BBQ'',
             start_ts = ''2025-09-05T17:00:00Z'', end_ts = ''2025-09-05T19:00:00Z'',
             venue = Some ''Main Hall''\<rparr>
          (Some 1757091600000) (Some 1757098800000) (Some 0)) \<and>
   count_list
     (lines_crlf
       (ics \<lparr>ev_id = ''a'' @ [CR, LF] @ ''BEGIN:VEVENT'' @ [CR, LF] @ ''b'',
             title = ''Welcome BBQ'', start_ts = ''2025-09-05T17:00:00Z'',
             end_ts = ''2025-09-05T19:00:00Z'', venue = Some ''Main Hall''\<rparr>
          (Some 1757091600000) (Some 1757098800000) (Some 0)))
     ''BEGIN:VEVENT'' = 2"
  by (simp add: ics_def ics_lines_def toIcsUtc_welcome_start toIcsUtc_welcome_end
      toIcsUtc_epoch escapeIcsText_def)

lemma digit_is_digit: "is_digit (digit n)"
proof -
  have "nat (n mod 10) < 10" by simp
  then have "''0123456789'' ! nat (n mod 10) \<in> set ''0123456789''"
    using nth_mem [of "nat (n mod 10)" "''0123456789''"] by simp
  then show ?thesis by (simp add: is_digit_def digit_def)
qed

lemma compact_utc_spec_shape: "compact_shape (compact_utc_spec t)"
  by (simp add: compact_shape_def compact_utc_spec_def four_digits_def two_digits_def
      digit_is_digit)

lemma welcome_bbq_lines:
  "lines_crlf (ics welcome_bbq (Some 1757091600000) (Some 1757098800000) now) =
     [''BEGIN:VCALENDAR'', ''VERSION:2.0'', ''PRODID:-//MCC Events//EN'',
      ''CALSCALE:GREGORIAN'', ''METHOD:PUBLISH'', ''BEGIN:VEVENT'', ''UID:e1@mcc-events'',
      ''DTSTAMP:'' @ toIcsUtc now, ''DTSTART:20250905T170000Z'', ''DTEND:20250905T190000Z'',
      ''SUMMARY:Welcome BBQ'', ''LOCATION:Main Hall'', ''END:VEVENT'', ''END:VCALENDAR'', []]"
proof -
  have "LF \<notin> set (ev_id welcome_bbq)"
    by (simp add: welcome_bbq_def)
  then have free: "\<forall>l \<in> set (ics_lines welcome_bbq (Some 1757091600000) (Some 1757098800000) now).
      LF \<notin> set l"
    by (rule ics_lines_no_LF)
  have ne: "ics_lines welcome_bbq (Some 1757091600000) (Some 1757098800000) now \<noteq> []"
    by (simp add: ics_lines_def)
  have ls: "lines_crlf (ics welcome_bbq (Some 1757091600000) (Some 1757098800000) now) =
      ics_lines welcome_bbq (Some 1757091600000) (Some 1757098800000) now"
    unfolding ics_def using ne free by (rule lines_crlf_join)
  have t: "escapeIcsText ''Welcome BBQ'' = ''Welcome BBQ''"
    "escapeIcsText ''Main Hall'' = ''Main Hall''"
    by (simp_all add: escapeIcsText_def)
  have "ics_lines welcome_bbq (Some 1757091600000) (Some 1757098800000) now =
     [''BEGIN:VCALENDAR'', ''VERSION:2.0'', ''PRODID:-//MCC Events//EN'',
      ''CALSCALE:GREGORIAN'', ''METHOD:PUBLISH'', ''BEGIN:VEVENT'', ''UID:e1@mcc-events'',
      ''DTSTAMP:'' @ toIcsUtc now, ''DTSTART:20250905T170000Z'', ''DTEND:20250905T190000Z'',
      ''SUMMARY:Welcome BBQ'', ''LOCATION:Main Hall'', ''END:VEVENT'', ''END:VCALENDAR'', []]"
    unfolding ics_lines_def toIcsUtc_welcome_start toIcsUtc_welcome_end welcome_bbq_def
    by (simp add: t)
  with ls show ?thesis
    by (rule trans)
qed

text \<open>
  Claim C3, amended. The scenario event serializes to the lines the specification lists.
  For every event the text carries, in this order, the UID line made of the id and
  \<^verbatim>\<open>@mcc-events\<close>, the stamp, DTSTART and DTEND with the formatted start and end, the
  escaped title, and the escaped venue or nothing after \<^verbatim>\<open>LOCATION:\<close> when there is no
  venue. For a start or end whose UTC year has four digits (1000 to 9999) the formatted
  text is the compact form \<^verbatim>\<open>YYYYMMDDTHHMMSSZ\<close> of its UTC fields.
\<close>

theorem ics_event_fields:
  "lines_crlf (ics welcome_bbq (Some 1757091600000) (Some 1757098800000) now) =
     [''BEGIN:VCALENDAR'', ''VERSION:2.0'', ''PRODID:-//MCC Events//EN'',
      ''CALSCALE:GREGORIAN'', ''METHOD:PUBLISH'', ''BEGIN:VEVENT'', ''UID:e1@mcc-events'',
      ''DTSTAMP:'' @ toIcsUtc now, ''DTSTART:20250905T170000Z'', ''DTEND:20250905T190000Z'',
      ''SUMMARY:Welcome BBQ'', ''LOCATION:Main Hall'', ''END:VEVENT'', ''END:VCALENDAR'', []] \<and>
   ics ev start end now =
     ''BEGIN:VCALENDAR'' @ [CR, LF] @
     ''VERSION:2.0'' @ [CR, LF] @
     ''PRODID:-//MCC Events//EN'' @ [CR, LF] @
     ''CALSCALE:GREGORIAN'' @ [CR, LF] @
     ''METHOD:PUBLISH'' @ [CR, LF] @
     ''BEGIN:VEVENT'' @ [CR, LF] @
     ''UID:'' @ ev_id ev @ ''@mcc-events'' @ [CR, LF] @
     ''DTSTAMP:'' @ toIcsUtc now @ [CR, LF] @
     ''DTSTART:'' @ toIcsUtc start @ [CR, LF] @
     ''DTEND:'' @ toIcsUtc end @ [CR, LF] @
     ''SUMMARY:'' @ escapeIcsText (title ev) @ [CR, LF] @
     ''LOCATION:'' @ (case venue ev of None \<Rightarrow> [] | Some v \<Rightarrow> escapeIcsText v) @ [CR, LF] @
     ''END:VEVENT'' @ [CR, LF] @
     ''END:VCALENDAR'' @ [CR, LF] \<and>
   (1000 \<le> YearFromTime t \<and> YearFromTime t \<le> 9999 \<longrightarrow>
      toIcsUtc (Some t) = compact_utc_spec t \<and> compact_shape (toIcsUtc (Some t)))"
proof -
  have 1: "lines_crlf (ics welcome_bbq (Some 1757091600000) (Some 1757098800000) now) =
     [''BEGIN:VCALENDAR'', ''VERSION:2.0'', ''PRODID:-//MCC Events//EN'',
      ''CALSCALE:GREGORIAN'', ''METHOD:PUBLISH'', ''BEGIN:VEVENT'', ''UID:e1@mcc-events'',
      ''DTSTAMP:'' @ toIcsUtc now, ''DTSTART:20250905T170000Z'', ''DTEND:20250905T190000Z'',
      ''SUMMARY:Welcome BBQ'', ''LOCATION:Main Hall'', ''END:VEVENT'', ''END:VCALENDAR'', []]"
    by (rule welcome_bbq_lines)
  have 2: "1000 \<le> YearFromTime t \<and> YearFromTime t \<le> 9999 \<longrightarrow>
      toIcsUtc (Some t) = compact_utc_spec t \<and> compact_shape (toIcsUtc (Some t))"
    using compact_utc_spec_shape [of t] by (simp add: toIcsUtc_compact)
  from 1 ics_unfold [of ev start "end" now] 2 show ?thesis
    by (intro conjI)
qed

theorem ics_event_fields_witness:
  "1000 \<le> YearFromTime 1757091600000 \<and> YearFromTime 1757091600000 \<le> 9999 \<and>
   toIcsUtc (Some 1757091600000) = compact_utc_spec 1757091600000 \<and>
   compact_utc_spec 1757091600000 = ''20250905T170000Z''"
proof -
  have y: "YearFromTime 1757091600000 = 2025"
    by code_simp
  have c: "compact_utc_spec 1757091600000 = ''20250905T170000Z''"
    by code_simp
  from ics_event_fields [of "Some 0" welcome_bbq "Some 0" "Some 0" 1757091600000] y c
  show ?thesis by simp
qed

theorem ics_event_fields_counterexample:
  "toIcsUtc (Some 253402300800000) = ''100000101T000000Z'' \<and>
   \<not> compact_shape (toIcsUtc (Some 253402300800000)) \<and>
   toIcsUtc (Some (- 30610224000001)) = ''9991231T235959Z'' \<and>
   \<not> compact_shape (toIcsUtc (Some (- 30610224000001)))"
  by (simp add: toIcsUtc_year_10000 toIcsUtc_year_999 compact_shape_def)

section \<open>Weeks\<close>

lemma MakeDay_shift:
  "MakeDay (YearFromTime t) (MonthFromTime t) (DateFromTime t + k) = Day t + k"
proof -
  have m: "MonthFromTime t div 12 = 0" "MonthFromTime t mod 12 = MonthFromTime t"
    using MonthFromTime_range [of t] by simp_all
  show ?thesis
    by (simp add: MakeDay_def Let_def m DateFromTime_def DayWithinYear_def InLeapYear_def)
qed

lemma day_time_split: "Day t * msPerDay + TimeWithinDay t = t"
  by (simp add: Day_def TimeWithinDay_def)

text \<open>Setting the day of the month to the present one plus \<open>k\<close> moves the local time by
  \<open>k\<close> days.\<close>

lemma setDate_shift:
  "setDate tz (Some u) (Some (DateFromTime (LocalTime tz u) + k)) =
     TimeClip (UTC tz (LocalTime tz u + k * msPerDay))"
proof -
  have "MakeDate (Day (LocalTime tz u) + k) (TimeWithinDay (LocalTime tz u)) =
      LocalTime tz u + k * msPerDay"
    using day_time_split [of "LocalTime tz u"] by (simp add: MakeDate_def algebra_simps)
  then show ?thesis
    by (simp add: setDate_def Let_def MakeDay_shift)
qed

lemma startOfWeek_None [simp]: "startOfWeek tz None = None"
  by (simp add: startOfWeek_def Let_def setHours_def setDate_def)

lemma startOfWeek_Some:
  "startOfWeek tz (Some t) =
     (case TimeClip (UTC tz (Day (LocalTime tz t) * msPerDay)) of
        None \<Rightarrow> None
      | Some u \<Rightarrow>
          TimeClip (UTC tz (LocalTime tz u - ((WeekDay (LocalTime tz t) + 6) mod 7) * msPerDay)))"
proof -
  have w: "0 \<le> WeekDay (LocalTime tz t)"
    by (simp add: WeekDay_def)
  then have r: "js_rem (WeekDay (LocalTime tz t) - WEEK_START + 7) 7 =
      (WeekDay (LocalTime tz t) + 6) mod 7"
    by (simp add: js_rem_def WEEK_START_def sgn_if add.commute)
  have h: "setHours tz (Some t) 0 0 0 0 = TimeClip (UTC tz (Day (LocalTime tz t) * msPerDay))"
    by (simp add: setHours_def MakeDate_def MakeTime_def)
  show ?thesis
  proof (cases "TimeClip (UTC tz (Day (LocalTime tz t) * msPerDay))")
    case None
    then show ?thesis
      using h by (simp add: startOfWeek_def Let_def setDate_def)
  next
    case (Some u)
    then show ?thesis
      using h r setDate_shift [of tz u "- ((WeekDay (LocalTime tz t) + 6) mod 7)"]
      by (simp add: startOfWeek_def Let_def num_sub_def getDate_def getDay_def)
  qed
qed

lemma endOfWeek_eq:
  "endOfWeek tz d =
     (case startOfWeek tz d of
        None \<Rightarrow> None
      | Some s \<Rightarrow> TimeClip (UTC tz (LocalTime tz s + 7 * msPerDay)))"
proof (cases "startOfWeek tz d")
  case None
  then show ?thesis
    by (simp add: endOfWeek_def Let_def setDate_def)
next
  case (Some s)
  then show ?thesis
    using setDate_shift [of tz s 7]
    by (simp add: endOfWeek_def Let_def num_add_def getDate_def)
qed

lemma LocalTime_fixed_zone [simp]: "LocalTime (fixed_zone c) t = t + c"
  by (simp add: LocalTime_def fixed_zone_def)

lemma UTC_fixed_zone [simp]: "UTC (fixed_zone c) t = t - c"
  by (simp add: UTC_def fixed_zone_def)

lemma endOfWeek_fixed_zone:
  "startOfWeek (fixed_zone c) d = Some s \<Longrightarrow>
     endOfWeek (fixed_zone c) d = TimeClip (s + 7 * msPerDay)"
  by (simp add: endOfWeek_eq)

lemma TimeClip_Some: "TimeClip x = Some y \<Longrightarrow> y = x \<and> \<bar>x\<bar> \<le> 8640000000000000"
  by (simp add: TimeClip_def split: if_splits)

lemma monday_offset: "(D - ((D + 4) mod 7 + 6) mod 7 + 3) mod 7 = 0" for D :: int
  by presburger

lemma monday_column: "(n + 3) mod 7 = 0 \<Longrightarrow> ((n + 4) mod 7 + 6) mod 7 = 0" for n :: int
  by presburger

lemma next_monday: "(n + 3) mod 7 = 0 \<Longrightarrow> (n + 7 + 3) mod 7 = 0" for n :: int
  by presburger

text \<open>In a zone with a fixed offset a week starts at a local midnight that is a Monday.\<close>

lemma startOfWeek_fixed_zone_Some:
  assumes "startOfWeek (fixed_zone c) d = Some s"
  shows "\<exists>n. s + c = n * msPerDay \<and> (n + 3) mod 7 = 0 \<and> \<bar>s\<bar> \<le> 8640000000000000"
proof -
  obtain t where d: "d = Some t"
    using assms by (cases d) simp_all
  define k where "k = (WeekDay (t + c) + 6) mod 7"
  obtain u where u: "TimeClip (Day (t + c) * msPerDay - c) = Some u"
    and s: "TimeClip (u + c - k * msPerDay - c) = Some s"
    using assms unfolding d startOfWeek_Some k_def by (auto split: option.splits)
  have u': "u = Day (t + c) * msPerDay - c"
    using TimeClip_Some [OF u] by simp
  have s': "s = u + c - k * msPerDay - c" "\<bar>s\<bar> \<le> 8640000000000000"
    using TimeClip_Some [OF s] by simp_all
  have 1: "s + c = (Day (t + c) - k) * msPerDay"
    using u' s' by (simp add: algebra_simps)
  have 2: "(Day (t + c) - k + 3) mod 7 = 0"
    unfolding k_def WeekDay_def by (rule monday_offset)
  show ?thesis
    by (rule exI [of _ "Day (t + c) - k"]) (intro conjI 1 2 s'(2))
qed

lemma startOfWeek_monday_midnight:
  assumes "x + c = n * msPerDay" "(n + 3) mod 7 = 0" "\<bar>x\<bar> \<le> 8640000000000000"
  shows "startOfWeek (fixed_zone c) (Some x) = Some x"
proof -
  have dn: "Day (x + c) = n"
    using assms(1) by (simp add: Day_def msPerDay_def)
  have u: "Day (x + c) * msPerDay - c = x"
    using assms(1) dn by simp
  have "(WeekDay (x + c) + 6) mod 7 = 0"
    using assms(2) unfolding WeekDay_def dn by (rule monday_column)
  then show ?thesis
    using assms(3) by (simp add: startOfWeek_Some u TimeClip_def)
qed

lemma weekEvents_member:
  "ev \<in> set (weekEvents parse tz now1 now2 events) \<longleftrightarrow>
     ev \<in> set events \<and> date_ge (parse (start_ts ev)) (startOfWeek tz now1) \<and>
     date_lt (parse (start_ts ev)) (endOfWeek tz now2)"
  by (auto simp: weekEvents_def Let_def)

lemma endOfWeek_same_offset:
  assumes "startOfWeek tz d = Some s" "tz (LocalTime tz s + 7 * msPerDay) False = tz s True"
  shows "endOfWeek tz d = TimeClip (s + 7 * msPerDay)"
proof -
  have "UTC tz (LocalTime tz s + 7 * msPerDay) = s + 7 * msPerDay"
    using assms(2) by (simp add: UTC_def LocalTime_def)
  then show ?thesis
    using assms(1) by (simp add: endOfWeek_eq)
qed

text \<open>
  An instant at which the local clocks show 00:00 on a Monday, and whose local time is
  read back with the same offset, is the start of its own week.
\<close>

lemma startOfWeek_local_monday:
  assumes "WeekDay (LocalTime tz x) = 1" "TimeWithinDay (LocalTime tz x) = 0"
    "tz (LocalTime tz x) False = tz x True" "\<bar>x\<bar> \<le> 8640000000000000"
  shows "startOfWeek tz (Some x) = Some x"
proof -
  have m: "Day (LocalTime tz x) * msPerDay = LocalTime tz x"
    using day_time_split [of "LocalTime tz x"] assms(2) by simp
  have u: "UTC tz (LocalTime tz x) = x"
    using assms(3) by (simp add: UTC_def LocalTime_def)
  have c: "TimeClip x = Some x"
    using assms(4) by (simp add: TimeClip_def)
  show ?thesis
    by (simp add: startOfWeek_Some m u c assms(1))
qed

text \<open>
  Claim C8, amended. In every time zone: when the start of the week of a reference instant
  is a valid Date \<open>s\<close> and the zone's offset at the local time seven days after the local
  time of \<open>s\<close> is its offset at \<open>s\<close>, the end of the week is \<open>s\<close> plus exactly seven days of
  86400000 milliseconds, or an invalid Date when that instant is beyond the range of
  Dates. An event is in the displayed week exactly when its start is a valid instant with
  \<open>weekStart \<le> start < weekEnd\<close>; so the instant at the start of a week is in the week
  as soon as the end is later, the instant at its end is not. A valid instant at which
  the local clocks show Monday 00:00, read back with the same offset, is the start of its
  own week; with a fixed offset both ends of every week are starts of their own weeks.
\<close>

theorem week_half_open:
  "(startOfWeek tz d = Some s \<and> tz (LocalTime tz s + 7 * msPerDay) False = tz s True \<longrightarrow>
      endOfWeek tz d = TimeClip (s + 7 * msPerDay)) \<and>
   (startOfWeek tz d = Some s \<and> tz (LocalTime tz s + 7 * msPerDay) False = tz s True \<and>
    endOfWeek tz d = Some e \<longrightarrow> e = s + 7 * msPerDay) \<and>
   (ev \<in> set (weekEvents parse tz now1 now2 events) \<longleftrightarrow>
      ev \<in> set events \<and> date_ge (parse (start_ts ev)) (startOfWeek tz now1) \<and>
      date_lt (parse (start_ts ev)) (endOfWeek tz now2)) \<and>
   (startOfWeek tz d = Some s \<and> endOfWeek tz d = Some e \<longrightarrow>
      date_ge (Some s) (startOfWeek tz d) \<and>
      date_lt (Some s) (endOfWeek tz d) = (s < e) \<and>
      \<not> date_lt (Some e) (endOfWeek tz d)) \<and>
   (WeekDay (LocalTime tz x) = 1 \<and> TimeWithinDay (LocalTime tz x) = 0 \<and>
    tz (LocalTime tz x) False = tz x True \<and> \<bar>x\<bar> \<le> 8640000000000000 \<longrightarrow>
      startOfWeek tz (Some x) = Some x) \<and>
   (startOfWeek (fixed_zone c) d = Some s \<and> endOfWeek (fixed_zone c) d = Some e \<longrightarrow>
      startOfWeek (fixed_zone c) (Some s) = Some s \<and>
      startOfWeek (fixed_zone c) (Some e) = Some e)"
proof (intro conjI impI)
  assume "startOfWeek tz d = Some s \<and> tz (LocalTime tz s + 7 * msPerDay) False = tz s True"
  then show "endOfWeek tz d = TimeClip (s + 7 * msPerDay)"
    using endOfWeek_same_offset [of tz d s] by simp
next
  assume a: "startOfWeek tz d = Some s \<and> tz (LocalTime tz s + 7 * msPerDay) False = tz s True \<and>
    endOfWeek tz d = Some e"
  then have "TimeClip (s + 7 * msPerDay) = Some e"
    using endOfWeek_same_offset [of tz d s] by simp
  then have "e = s + 7 * msPerDay \<and> \<bar>s + 7 * msPerDay\<bar> \<le> 8640000000000000"
    by (rule TimeClip_Some)
  then show "e = s + 7 * msPerDay" ..
next
  show "ev \<in> set (weekEvents parse tz now1 now2 events) \<longleftrightarrow>
      ev \<in> set events \<and> date_ge (parse (start_ts ev)) (startOfWeek tz now1) \<and>
      date_lt (parse (start_ts ev)) (endOfWeek tz now2)"
    by (rule weekEvents_member)
next
  assume a: "startOfWeek tz d = Some s \<and> endOfWeek tz d = Some e"
  show "date_ge (Some s) (startOfWeek tz d)"
    using a by (simp add: date_ge_def)
  show "date_lt (Some s) (endOfWeek tz d) = (s < e)"
    using a by (simp add: date_lt_def)
  show "\<not> date_lt (Some e) (endOfWeek tz d)"
    using a by (simp add: date_lt_def)
next
  assume "WeekDay (LocalTime tz x) = 1 \<and> TimeWithinDay (LocalTime tz x) = 0 \<and>
    tz (LocalTime tz x) False = tz x True \<and> \<bar>x\<bar> \<le> 8640000000000000"
  then show "startOfWeek tz (Some x) = Some x"
    using startOfWeek_local_monday [of tz x] by simp
next
  assume a: "startOfWeek (fixed_zone c) d = Some s \<and> endOfWeek (fixed_zone c) d = Some e"
  then have "TimeClip (s + 7 * msPerDay) = Some e"
    using endOfWeek_fixed_zone [of c d s] by simp
  then have "e = s + 7 * msPerDay \<and> \<bar>s + 7 * msPerDay\<bar> \<le> 8640000000000000"
    by (rule TimeClip_Some)
  then have e: "e = s + 7 * msPerDay" "\<bar>e\<bar> \<le> 8640000000000000"
    by simp_all
  from a have "startOfWeek (fixed_zone c) d = Some s" ..
  then have "\<exists>n. s + c = n * msPerDay \<and> (n + 3) mod 7 = 0 \<and> \<bar>s\<bar> \<le> 8640000000000000"
    by (rule startOfWeek_fixed_zone_Some)
  then obtain n where "s + c = n * msPerDay \<and> (n + 3) mod 7 = 0 \<and> \<bar>s\<bar> \<le> 8640000000000000" ..
  then have n: "s + c = n * msPerDay" "(n + 3) mod 7 = 0" "\<bar>s\<bar> \<le> 8640000000000000"
    by simp_all
  show "startOfWeek (fixed_zone c) (Some s) = Some s"
    using n by (rule startOfWeek_monday_midnight)
  have "e + c = (n + 7) * msPerDay"
    using e n by (simp add: algebra_simps)
  moreover have "(n + 7 + 3) mod 7 = 0"
    using n(2) by (rule next_monday)
  ultimately show "startOfWeek (fixed_zone c) (Some e) = Some e"
    using e(2) by (rule startOfWeek_monday_midnight)
qed

lemma january_week_start:
  "startOfWeek spring_forward_zone (Some 1736344800000) = Some 1736139600000"
  by (simp add: startOfWeek_Some LocalTime_def UTC_def spring_forward_zone_def Day_def
      WeekDay_def msPerDay_def TimeClip_def)

lemma january_week_utc_start:
  "startOfWeek (fixed_zone 0) (Some 1736344800000) = Some 1736121600000"
  by (simp add: startOfWeek_Some Day_def WeekDay_def msPerDay_def TimeClip_def)

theorem week_half_open_witness:
  "startOfWeek spring_forward_zone (Some 1736344800000) = Some 1736139600000 \<and>
   endOfWeek spring_forward_zone (Some 1736344800000) = Some 1736744400000 \<and>
   date_lt (Some 1736139600000) (endOfWeek spring_forward_zone (Some 1736344800000)) \<and>
   startOfWeek spring_forward_zone (Some 1736139600000) = Some 1736139600000 \<and>
   startOfWeek (fixed_zone 0) (Some 1736344800000) = Some 1736121600000 \<and>
   endOfWeek (fixed_zone 0) (Some 1736344800000) = Some 1736726400000 \<and>
   startOfWeek (fixed_zone 0) (Some 1736726400000) = Some 1736726400000"
proof -
  note s = january_week_start
  note w = week_half_open [where tz = spring_forward_zone and d = "Some 1736344800000"
      and s = 1736139600000 and e = 1736744400000 and x = 1736139600000]
  have l: "LocalTime spring_forward_zone 1736139600000 = 1736121600000"
    by (simp add: LocalTime_def spring_forward_zone_def)
  have o: "spring_forward_zone (LocalTime spring_forward_zone 1736139600000 + 7 * msPerDay) False =
      spring_forward_zone 1736139600000 True"
    unfolding l by (simp add: spring_forward_zone_def msPerDay_def)
  have c: "TimeClip (1736139600000 + 7 * msPerDay) = Some 1736744400000"
    by (simp add: TimeClip_def msPerDay_def)
  have e: "endOfWeek spring_forward_zone (Some 1736344800000) = Some 1736744400000"
    using w [THEN conjunct1, THEN mp, OF conjI, OF s o] c by simp
  have i: "date_lt (Some 1736139600000) (endOfWeek spring_forward_zone (Some 1736344800000)) =
      (1736139600000 < (1736744400000 :: int))"
    using w [THEN conjunct2, THEN conjunct2, THEN conjunct2, THEN conjunct1, THEN mp,
        OF conjI, OF s e]
    by (elim conjE)
  have m: "WeekDay (LocalTime spring_forward_zone 1736139600000) = 1 \<and>
      TimeWithinDay (LocalTime spring_forward_zone 1736139600000) = 0 \<and>
      spring_forward_zone (LocalTime spring_forward_zone 1736139600000) False =
        spring_forward_zone 1736139600000 True \<and>
      \<bar>1736139600000 :: int\<bar> \<le> 8640000000000000"
    unfolding l
    by (simp add: WeekDay_def Day_def TimeWithinDay_def msPerDay_def spring_forward_zone_def)
  have x: "startOfWeek spring_forward_zone (Some 1736139600000) = Some 1736139600000"
    using w [THEN conjunct2, THEN conjunct2, THEN conjunct2, THEN conjunct2, THEN conjunct1,
        THEN mp, OF m] .
  note f = week_half_open [where c = 0 and tz = "fixed_zone 0" and d = "Some 1736344800000"
      and s = 1736121600000 and e = 1736726400000]
  note fs = january_week_utc_start
  have fo: "fixed_zone 0 (LocalTime (fixed_zone 0) 1736121600000 + 7 * msPerDay) False =
      fixed_zone 0 1736121600000 True"
    by (simp add: fixed_zone_def)
  have fc: "TimeClip (1736121600000 + 7 * msPerDay) = Some 1736726400000"
    by (simp add: TimeClip_def msPerDay_def)
  have fe: "endOfWeek (fixed_zone 0) (Some 1736344800000) = Some 1736726400000"
    using f [THEN conjunct1, THEN mp, OF conjI, OF fs fo] fc by simp
  have fx: "startOfWeek (fixed_zone 0) (Some 1736726400000) = Some 1736726400000"
    using f [THEN conjunct2, THEN conjunct2, THEN conjunct2, THEN conjunct2, THEN conjunct2,
        THEN mp, OF conjI, OF fs fe]
    by (elim conjE)
  from s e i x fs fe fx show ?thesis
    by simp
qed

lemma spring_forward_start:
  "startOfWeek spring_forward_zone (Some 1741176000000) = Some 1740978000000"
  by (simp add: startOfWeek_Some LocalTime_def UTC_def spring_forward_zone_def Day_def
      WeekDay_def msPerDay_def TimeClip_def)

lemma spring_forward_end:
  "endOfWeek spring_forward_zone (Some 1741176000000) = Some 1741579200000"
  unfolding endOfWeek_eq spring_forward_start
  by (simp add: LocalTime_def UTC_def spring_forward_zone_def msPerDay_def TimeClip_def)

theorem week_half_open_counterexample:
  "startOfWeek spring_forward_zone (Some 1741176000000) = Some 1740978000000 \<and>
   endOfWeek spring_forward_zone (Some 1741176000000) = Some 1741579200000 \<and>
   1741579200000 \<noteq> 1740978000000 + 7 * msPerDay"
  by (simp add: spring_forward_start spring_forward_end msPerDay_def)

section \<open>Groups by day\<close>

lemma set_insort_cmp: "set (insort_cmp cmp x xs) = insert x (set xs)"
  by (induction xs) auto

lemma set_sort_cmp: "set (sort_cmp cmp xs) = set xs"
  unfolding sort_cmp_def by (induction xs) (simp_all add: set_insort_cmp)

lemma distinct_map_insort_cmp:
  "distinct (map f (insort_cmp cmp x xs)) = (f x \<notin> f ` set xs \<and> distinct (map f xs))"
  by (induction xs) (auto simp: set_insort_cmp)

lemma distinct_map_sort_cmp: "distinct (map f (sort_cmp cmp xs)) = distinct (map f xs)"
  unfolding sort_cmp_def
proof (induction xs)
  case Nil
  then show ?case by simp
next
  case (Cons x xs)
  have "set (foldr (insort_cmp cmp) xs []) = set xs"
    using set_sort_cmp [of cmp xs] by (simp add: sort_cmp_def)
  then show ?case
    using Cons by (simp add: distinct_map_insort_cmp)
qed

lemma sorted_insort_cmp:
  assumes total: "\<And>a b. cmp a b \<le> 0 \<or> cmp b a \<le> 0"
    and trans: "\<And>a b c. cmp a b \<le> 0 \<Longrightarrow> cmp b c \<le> 0 \<Longrightarrow> cmp a c \<le> 0"
  shows "sorted_wrt (\<lambda>a b. cmp a b \<le> 0) xs \<Longrightarrow>
         sorted_wrt (\<lambda>a b. cmp a b \<le> 0) (insort_cmp cmp x xs)"
proof (induction xs)
  case Nil
  show ?case by simp
next
  case (Cons y ys)
  show ?case
  proof (cases "cmp x y \<le> 0")
    case True
    have "\<forall>z \<in> set ys. cmp x z \<le> 0"
    proof
      fix z assume "z \<in> set ys"
      then have "cmp y z \<le> 0" using Cons.prems by simp
      with True show "cmp x z \<le> 0" by (rule trans)
    qed
    then show ?thesis
      using True Cons.prems by simp
  next
    case False
    then have yx: "cmp y x \<le> 0"
      using total [of x y] by simp
    have "sorted_wrt (\<lambda>a b. cmp a b \<le> 0) (insort_cmp cmp x ys)"
      using Cons by simp
    moreover have "\<forall>z \<in> set (insort_cmp cmp x ys). cmp y z \<le> 0"
      using yx Cons.prems by (simp add: set_insort_cmp)
    ultimately show ?thesis
      using False by simp
  qed
qed

lemma sorted_sort_cmp:
  assumes "consistent_cmp cmp"
  shows "sorted_wrt (\<lambda>a b. cmp a b \<le> 0) (sort_cmp cmp xs)"
proof -
  have total: "cmp a b \<le> 0 \<or> cmp b a \<le> 0" for a b
    using assms unfolding consistent_cmp_def by (elim conjE allE)
  have trans: "cmp a b \<le> 0 \<Longrightarrow> cmp b c \<le> 0 \<Longrightarrow> cmp a c \<le> 0" for a b c
    using assms unfolding consistent_cmp_def by (elim conjE allE [of _ a] allE [of _ b] allE [of _ c]) simp
  show ?thesis
    unfolding sort_cmp_def
  proof (induction xs)
    case Nil
    show ?case by simp
  next
    case (Cons x xs)
    then show ?case
      using sorted_insort_cmp [of cmp, OF total trans] by simp
  qed
qed

lemma consistent_cmp_fst:
  assumes "consistent_cmp cmp"
  shows "consistent_cmp (\<lambda>(a, _) (b, _). cmp a b)"
proof -
  have total: "cmp a b \<le> 0 \<or> cmp b a \<le> 0" for a b
    using assms unfolding consistent_cmp_def by (elim conjE allE)
  have trans: "cmp a b \<le> 0 \<Longrightarrow> cmp b c \<le> 0 \<Longrightarrow> cmp a c \<le> 0" for a b c
    using assms unfolding consistent_cmp_def by (elim conjE allE [of _ a] allE [of _ b] allE [of _ c]) simp
  show ?thesis
    unfolding consistent_cmp_def
  proof (intro conjI allI impI)
    fix p q :: "'a \<times> 'b"
    show "(case p of (a, _) \<Rightarrow> \<lambda>(b, _). cmp a b) q \<le> 0 \<or>
        (case q of (a, _) \<Rightarrow> \<lambda>(b, _). cmp a b) p \<le> 0"
      using total [of "fst p" "fst q"] by (simp add: case_prod_unfold)
  next
    fix p q r :: "'a \<times> 'b"
    assume "(case p of (a, _) \<Rightarrow> \<lambda>(b, _). cmp a b) q \<le> 0 \<and>
        (case q of (a, _) \<Rightarrow> \<lambda>(b, _). cmp a b) r \<le> 0"
    then show "(case p of (a, _) \<Rightarrow> \<lambda>(b, _). cmp a b) r \<le> 0"
      using trans [of "fst p" "fst q" "fst r"] by (simp add: case_prod_unfold)
  qed
qed

lemma grouped_empty: "grouped parse [] []"
  by (simp add: grouped_def)

lemma map_push_keys:
  "map fst (map_push m k ev) = (if map_has m k then map fst m else map fst m @ [k])"
  by (auto simp: map_push_def Let_def split: prod.splits)

lemma map_push_entry:
  assumes "(k', rows') \<in> set (map_push m k ev)"
  shows "(k' \<noteq> k \<and> (k', rows') \<in> set m) \<or>
         (k' = k \<and> (\<exists>rows. (k, rows) \<in> set m \<and> rows' = rows @ [ev])) \<or>
         (k' = k \<and> \<not> map_has m k \<and> rows' = [ev])"
  using assms by (auto simp: map_push_def Let_def split: if_splits)

lemma grouped_step:
  assumes g: "grouped parse m seen" and k: "dayKey parse ev = Inr k"
  shows "grouped parse (map_push m k ev) (seen @ [ev])"
proof -
  have d: "distinct (map fst m)"
    and keys: "fst ` set m = {k. \<exists>ev \<in> set seen. dayKey parse ev = Inr k}"
    and rows: "\<And>k rows. (k, rows) \<in> set m \<Longrightarrow> rows = filter (\<lambda>ev. dayKey parse ev = Inr k) seen"
    using g by (auto simp: grouped_def)
  have new: "filter (\<lambda>ev. dayKey parse ev = Inr k) seen = []" if "\<not> map_has m k"
  proof -
    have "k \<notin> {k. \<exists>ev \<in> set seen. dayKey parse ev = Inr k}"
      using that keys by (simp add: map_has_def)
    then show ?thesis
      by (auto simp: filter_empty_conv)
  qed
  have 1: "distinct (map fst (map_push m k ev))"
    using d by (simp add: map_push_keys map_has_def)
  have 2: "fst ` set (map_push m k ev) =
      {k. \<exists>ev \<in> set (seen @ [ev]). dayKey parse ev = Inr k}"
  proof -
    have "fst ` set (map_push m k ev) = insert k (fst ` set m)"
      using map_push_keys [of m k ev] set_map [of fst "map_push m k ev"]
      by (auto simp: map_has_def simp flip: set_map)
    then show ?thesis
      using keys k by auto
  qed
  have 3: "rows' = filter (\<lambda>ev. dayKey parse ev = Inr k') (seen @ [ev])"
    if "(k', rows') \<in> set (map_push m k ev)" for k' rows'
    using map_push_entry [OF that] rows new k by auto
  show ?thesis
    unfolding grouped_def using 1 2 3 by blast
qed

lemma group_loop_grouped:
  assumes "\<forall>ev \<in> set evs. parse (start_ts ev) \<noteq> None" "grouped parse m seen"
  shows "\<exists>m'. group_loop parse m evs = Inr m' \<and> grouped parse m' (seen @ evs)"
  using assms
proof (induction evs arbitrary: m seen)
  case Nil
  then show ?case by simp
next
  case (Cons ev evs)
  obtain t where t: "parse (start_ts ev) = Some t"
    using Cons.prems(1) by auto
  then obtain k where k: "dayKey parse ev = Inr k"
    by (simp add: dayKey_def toISOString_def Let_def)
  have "grouped parse (map_push m k ev) (seen @ [ev])"
    using Cons.prems(2) k by (rule grouped_step)
  moreover have "\<forall>ev \<in> set evs. parse (start_ts ev) \<noteq> None"
    using Cons.prems(1) by simp
  ultimately have "\<exists>m'. group_loop parse (map_push m k ev) evs = Inr m' \<and>
      grouped parse m' ((seen @ [ev]) @ evs)"
    by (rule Cons.IH [rotated])
  then show ?case
    using k by simp
qed

text \<open>The grouping measured with the day key of the code.\<close>

lemma groups_grouped:
  assumes "\<forall>ev \<in> set events. parse (start_ts ev) \<noteq> None"
    and "consistent_cmp localeCompare"
  shows "\<exists>gs. groups parse localeCompare events = Inr gs \<and>
           distinct (map fst gs) \<and>
           set (map fst gs) = {k. \<exists>ev \<in> set events. dayKey parse ev = Inr k} \<and>
           sorted_wrt (\<lambda>a b. localeCompare a b \<le> 0) (map fst gs) \<and>
           (\<forall>(k, rows) \<in> set gs. rows = filter (\<lambda>ev. dayKey parse ev = Inr k) events) \<and>
           (sorted_wrt (\<lambda>a b. date_ge (parse (start_ts b)) (parse (start_ts a))) events \<longrightarrow>
              (\<forall>(k, rows) \<in> set gs.
                 sorted_wrt (\<lambda>a b. date_ge (parse (start_ts b)) (parse (start_ts a))) rows)) \<and>
           groups parse localeCompare [] = Inr []"
proof -
  let ?c = "\<lambda>(a, _ :: EventRow list) (b, _ :: EventRow list). localeCompare a b"
  obtain m where m: "group_loop parse [] events = Inr m" and g: "grouped parse m events"
    using group_loop_grouped [OF assms(1) grouped_empty] by auto
  define gs where "gs = sort_cmp ?c m"
  have r: "groups parse localeCompare events = Inr gs"
    by (simp add: groups_def m gs_def)
  have s: "set gs = set m"
    by (simp add: gs_def set_sort_cmp)
  have 1: "distinct (map fst gs)"
    using g by (simp add: gs_def distinct_map_sort_cmp grouped_def)
  have 2: "set (map fst gs) = {k. \<exists>ev \<in> set events. dayKey parse ev = Inr k}"
    using g s by (simp add: grouped_def)
  have "sorted_wrt (\<lambda>x y. ?c x y \<le> 0) gs"
    unfolding gs_def using consistent_cmp_fst [OF assms(2)] by (rule sorted_sort_cmp)
  then have 3: "sorted_wrt (\<lambda>a b. localeCompare a b \<le> 0) (map fst gs)"
    by (simp add: sorted_wrt_map case_prod_unfold)
  have 4: "\<forall>(k, rows) \<in> set gs. rows = filter (\<lambda>ev. dayKey parse ev = Inr k) events"
    using g s by (simp add: grouped_def)
  have 5: "\<forall>(k, rows) \<in> set gs.
      sorted_wrt (\<lambda>a b. date_ge (parse (start_ts b)) (parse (start_ts a))) rows"
    if "sorted_wrt (\<lambda>a b. date_ge (parse (start_ts b)) (parse (start_ts a))) events"
    using 4 that by (auto simp: sorted_wrt_filter)
  have 6: "groups parse localeCompare [] = Inr []"
    by (simp add: groups_def sort_cmp_def)
  show ?thesis
    using r 1 2 3 4 5 6 by (intro exI [of _ gs] conjI impI)
qed
section \<open>Day keys and calendar days\<close>

lemma digit_inj: "digit a = digit b \<Longrightarrow> a mod 10 = b mod 10"
proof -
  assume e: "digit a = digit b"
  have d: "distinct ''0123456789''" by simp
  have "nat (a mod 10) < length ''0123456789''" "nat (b mod 10) < length ''0123456789''"
    by simp_all
  with d e have "nat (a mod 10) = nat (b mod 10)"
    unfolding digit_def by (simp only: nth_eq_iff_index_eq)
  then show ?thesis by simp
qed

lemma small_mod_10: "0 \<le> x \<Longrightarrow> x < 10 \<Longrightarrow> x mod 10 = x" for x :: int
  by simp

lemma join_last_digit:
  fixes a b :: int
  assumes "a div 10 = b div 10" "a mod 10 = b mod 10"
  shows "a = b"
proof -
  have "a = a div 10 * 10 + a mod 10" by simp
  also have "\<dots> = b div 10 * 10 + b mod 10" by (simp only: assms)
  also have "\<dots> = b" by simp
  finally show ?thesis .
qed

lemma two_digits_inj:
  assumes "two_digits a = two_digits b" "0 \<le> a" "a \<le> 99" "0 \<le> b" "b \<le> 99"
  shows "a = b"
proof -
  have e: "digit a = digit b" "digit (a div 10) = digit (b div 10)"
    using assms(1) by (simp_all add: two_digits_def)
  have 1: "a mod 10 = b mod 10" and 2: "a div 10 mod 10 = b div 10 mod 10"
    by (rule digit_inj, rule e)+
  have "a div 10 mod 10 = a div 10" "b div 10 mod 10 = b div 10"
    using assms by (simp_all add: small_mod_10)
  with 2 have "a div 10 = b div 10"
    by (simp only:)
  then show ?thesis
    using 1 by (rule join_last_digit)
qed

lemma four_digits_inj:
  assumes "four_digits a = four_digits b" "0 \<le> a" "a \<le> 9999" "0 \<le> b" "b \<le> 9999"
  shows "a = b"
proof -
  have e: "digit a = digit b" "digit (a div 10) = digit (b div 10)"
    "digit (a div 100) = digit (b div 100)" "digit (a div 1000) = digit (b div 1000)"
    using assms(1) by (simp_all add: four_digits_def)
  have d: "a mod 10 = b mod 10" "a div 10 mod 10 = b div 10 mod 10"
    "a div 100 mod 10 = b div 100 mod 10" "a div 1000 mod 10 = b div 1000 mod 10"
    by (rule digit_inj, rule e)+
  have h: "x div 10 div 10 = x div 100" "x div 100 div 10 = x div 1000" for x :: int
    using zdiv_zmult2_eq [of 10 x 10] zdiv_zmult2_eq [of 10 x 100] by simp_all
  have "a div 1000 mod 10 = a div 1000" "b div 1000 mod 10 = b div 1000"
    using assms by (simp_all add: small_mod_10)
  with d(4) have 3: "a div 1000 = b div 1000"
    by (simp only:)
  have 2: "a div 100 = b div 100"
  proof (rule join_last_digit)
    show "a div 100 div 10 = b div 100 div 10" by (simp only: h 3)
    show "a div 100 mod 10 = b div 100 mod 10" by (rule d)
  qed
  have 1: "a div 10 = b div 10"
  proof (rule join_last_digit)
    show "a div 10 div 10 = b div 10 div 10" by (simp only: h 2)
    show "a div 10 mod 10 = b div 10 mod 10" by (rule d)
  qed
  show ?thesis
    using 1 d(1) by (rule join_last_digit)
qed

lemma pad_to_two: "0 \<le> n \<Longrightarrow> n \<le> 99 \<Longrightarrow> pad_to 2 n = two_digits n"
  using pad_two_digits [of n] by (simp add: pad_to_def Number_toString_def)

lemma pad_to_three_digits:
  assumes "0 \<le> n" "n \<le> 999"
  shows "digits (nat n) =
    (if n < 10 then [digit n] else if n < 100 then [digit (n div 10), digit n]
     else [digit (n div 100), digit (n div 10), digit n])"
proof -
  have one: "digits (nat x) = [digit x]" if "0 \<le> x" "x < 10" for x
    using that by (simp add: digits_one digit_def)
  have more: "digits (nat x) = digits (nat (x div 10)) @ [digit x]" if "10 \<le> x" for x
    using that by (simp add: digits_more digit_def nat_mod_10 nat_div_10)
  have h: "n div 100 = n div 10 div 10"
    using zdiv_zmult2_eq [of 10 n 10] by simp
  show ?thesis
  proof (cases "n < 10")
    case True
    then show ?thesis using assms one by simp
  next
    case False
    show ?thesis
    proof (cases "n < 100")
      case True
      then have "digits (nat (n div 10)) = [digit (n div 10)]"
        using False one [of "n div 10"] by simp
      then show ?thesis using True False more [of n] by simp
    next
      case b: False
      then have "digits (nat (n div 10 div 10)) = [digit (n div 10 div 10)]"
        using assms one [of "n div 10 div 10"] by simp
      moreover have "10 \<le> n div 10" using b by simp
      ultimately have "digits (nat (n div 10)) = [digit (n div 10 div 10), digit (n div 10)]"
        using more [of "n div 10"] by simp
      then show ?thesis using b False more [of n] by (simp add: h)
    qed
  qed
qed

lemma pad_to_four:
  assumes "0 \<le> y" "y \<le> 9999"
  shows "pad_to 4 y = four_digits y"
proof (cases "1000 \<le> y")
  case True
  then have "Number_toString (Some y) = four_digits y"
    using assms by (simp add: year_four_digits)
  then have "digits (nat y) = four_digits y"
    using assms by (simp add: Number_toString_def)
  then show ?thesis
    by (simp add: pad_to_def padStart_def four_digits_def)
next
  case False
  then have s: "y \<le> 999" by simp
  have z: "y < 10 \<Longrightarrow> y div 10 = 0" "y < 100 \<Longrightarrow> y div 100 = 0" "y div 1000 = 0"
    using assms False by simp_all
  have d0: "digit 0 = CHR ''0''" by (simp add: digit_def)
  show ?thesis
    using z d0 by (simp add: pad_to_def padStart_def four_digits_def
        pad_to_three_digits [OF assms(1) s] numeral_3_eq_3 numeral_2_eq_2)
qed

lemma day_from_fields:
  "Day t = DayFromYear (YearFromTime t) + month_start (MonthFromTime t) (InLeapYear t) +
     DateFromTime t - 1"
  by (simp add: DateFromTime_def DayWithinYear_def)

lemma fields_from_day:
  assumes "Day t1 = Day t2"
  shows "YearFromTime t1 = YearFromTime t2" "MonthFromTime t1 = MonthFromTime t2"
    "DateFromTime t1 = DateFromTime t2"
proof -
  show y: "YearFromTime t1 = YearFromTime t2"
    using assms by (simp add: YearFromTime_def)
  then have l: "InLeapYear t1 = InLeapYear t2" and w: "DayWithinYear t1 = DayWithinYear t2"
    using assms by (simp_all add: InLeapYear_def DayWithinYear_def)
  then show m: "MonthFromTime t1 = MonthFromTime t2"
    by (simp add: MonthFromTime_def)
  with l w show "DateFromTime t1 = DateFromTime t2"
    by (simp add: DateFromTime_def)
qed

text \<open>Within the years 0 to 9999 the date text names the calendar day, one to one.\<close>

lemma utc_date_spec_eq_iff:
  assumes "0 \<le> YearFromTime t1" "YearFromTime t1 \<le> 9999"
    "0 \<le> YearFromTime t2" "YearFromTime t2 \<le> 9999"
  shows "(utc_date_spec t1 = utc_date_spec t2) = (Day t1 = Day t2)"
proof
  assume "Day t1 = Day t2"
  then show "utc_date_spec t1 = utc_date_spec t2"
    using fields_from_day [of t1 t2] by (simp add: utc_date_spec_def)
next
  assume "utc_date_spec t1 = utc_date_spec t2"
  then have e: "four_digits (YearFromTime t1) = four_digits (YearFromTime t2)"
    "two_digits (MonthFromTime t1 + 1) = two_digits (MonthFromTime t2 + 1)"
    "two_digits (DateFromTime t1) = two_digits (DateFromTime t2)"
    by (simp_all add: utc_date_spec_def four_digits_def two_digits_def)
  have y: "YearFromTime t1 = YearFromTime t2"
    using e(1) assms by (rule four_digits_inj)
  have "MonthFromTime t1 + 1 = MonthFromTime t2 + 1"
    using e(2) MonthFromTime_range [of t1] MonthFromTime_range [of t2]
    by (intro two_digits_inj) simp_all
  then have m: "MonthFromTime t1 = MonthFromTime t2"
    by simp
  have d: "DateFromTime t1 = DateFromTime t2"
    using e(3) DateFromTime_range [of t1] DateFromTime_range [of t2]
    by (intro two_digits_inj) simp_all
  have l: "InLeapYear t1 = InLeapYear t2"
    using y by (simp add: InLeapYear_def)
  show "Day t1 = Day t2"
    unfolding day_from_fields [of t1] day_from_fields [of t2] y m d l ..
qed

lemma dayKey_utc_date:
  assumes "parse (start_ts ev) = Some t" "0 \<le> YearFromTime t" "YearFromTime t \<le> 9999"
  shows "dayKey parse ev = Inr (utc_date_spec t)"
proof -
  have "length (utc_date_spec t) = 10"
    by (simp add: utc_date_spec_def four_digits_def two_digits_def)
  moreover have "\<exists>rest. toISOString (Some t) = Inr (utc_date_spec t @ rest)"
    using assms(2,3) MonthFromTime_range [of t] DateFromTime_range [of t]
    by (simp add: toISOString_def Let_def utc_date_spec_def pad_to_four pad_to_two)
  ultimately show ?thesis
    using assms(1) by (auto simp: dayKey_def)
qed

text \<open>
  Claim C4, amended. For every list of events whose starts are valid instants with a UTC
  year from 0 to 9999, and a string comparison that orders any two keys consistently, the
  grouping returns one group per distinct UTC calendar day of the events' starts: the keys
  are distinct, they are the dates \<^verbatim>\<open>YYYY-MM-DD\<close> of the days on which events start, a
  date names one day only, and the groups stand ascending by key in the comparison. Each
  group holds all the events that start on its day, in their order in the input: the
  grouping does not sort them, so a group is ascending by start instant when the input
  is. The empty list gives no groups.
\<close>

theorem groups_by_day:
  assumes "\<forall>ev \<in> set events.
      \<exists>t. parse (start_ts ev) = Some t \<and> 0 \<le> YearFromTime t \<and> YearFromTime t \<le> 9999"
    and "consistent_cmp localeCompare"
  shows "(\<exists>gs. groups parse localeCompare events = Inr gs \<and>
           distinct (map fst gs) \<and>
           set (map fst gs) =
             {k. \<exists>ev \<in> set events. \<exists>t. parse (start_ts ev) = Some t \<and> k = utc_date_spec t} \<and>
           sorted_wrt (\<lambda>a b. localeCompare a b \<le> 0) (map fst gs) \<and>
           (\<forall>(k, rows) \<in> set gs.
              \<exists>t. (\<exists>ev \<in> set events. parse (start_ts ev) = Some t) \<and> k = utc_date_spec t \<and>
                  rows = filter (\<lambda>ev. map_option Day (parse (start_ts ev)) = Some (Day t))
                           events) \<and>
           (sorted_wrt (\<lambda>a b. date_ge (parse (start_ts b)) (parse (start_ts a))) events \<longrightarrow>
              (\<forall>(k, rows) \<in> set gs.
                 sorted_wrt (\<lambda>a b. date_ge (parse (start_ts b)) (parse (start_ts a))) rows))) \<and>
         groups parse localeCompare [] = Inr [] \<and>
         (0 \<le> YearFromTime t1 \<and> YearFromTime t1 \<le> 9999 \<and>
          0 \<le> YearFromTime t2 \<and> YearFromTime t2 \<le> 9999 \<longrightarrow>
            (utc_date_spec t1 = utc_date_spec t2) = (Day t1 = Day t2))"
proof -
  have valid: "\<forall>ev \<in> set events. parse (start_ts ev) \<noteq> None"
    using assms(1) by auto
  have key: "dayKey parse ev = Inr (utc_date_spec t)"
    if "ev \<in> set events" "parse (start_ts ev) = Some t" for ev t
  proof -
    have "\<exists>t. parse (start_ts ev) = Some t \<and> 0 \<le> YearFromTime t \<and> YearFromTime t \<le> 9999"
      using assms(1) that(1) by (rule bspec)
    then have "0 \<le> YearFromTime t \<and> YearFromTime t \<le> 9999"
      using that(2) by auto
    then show ?thesis
      using that(2) by (simp add: dayKey_utc_date)
  qed
  have same: "(dayKey parse ev = Inr (utc_date_spec t0)) =
      (map_option Day (parse (start_ts ev)) = Some (Day t0))"
    if "ev \<in> set events" "ev0 \<in> set events" "parse (start_ts ev0) = Some t0" for ev ev0 t0
  proof -
    have "\<exists>t. parse (start_ts ev) = Some t \<and> 0 \<le> YearFromTime t \<and> YearFromTime t \<le> 9999"
      using assms(1) that(1) by (rule bspec)
    then obtain t where t: "parse (start_ts ev) = Some t" "0 \<le> YearFromTime t" "YearFromTime t \<le> 9999"
      by (elim exE conjE)
    have "\<exists>t. parse (start_ts ev0) = Some t \<and> 0 \<le> YearFromTime t \<and> YearFromTime t \<le> 9999"
      using assms(1) that(2) by (rule bspec)
    then have "0 \<le> YearFromTime t0" "YearFromTime t0 \<le> 9999"
      using that(3) by auto
    then have "(utc_date_spec t = utc_date_spec t0) = (Day t = Day t0)"
      using t(2,3) by (intro utc_date_spec_eq_iff)
    then show ?thesis
      using key [OF that(1) t(1)] t(1) by simp
  qed
  obtain gs where r: "groups parse localeCompare events = Inr gs"
    and d: "distinct (map fst gs)"
    and k: "set (map fst gs) = {k. \<exists>ev \<in> set events. dayKey parse ev = Inr k}"
    and o: "sorted_wrt (\<lambda>a b. localeCompare a b \<le> 0) (map fst gs)"
    and f: "\<forall>(k, rows) \<in> set gs. rows = filter (\<lambda>ev. dayKey parse ev = Inr k) events"
    and i: "sorted_wrt (\<lambda>a b. date_ge (parse (start_ts b)) (parse (start_ts a))) events \<longrightarrow>
      (\<forall>(k, rows) \<in> set gs.
         sorted_wrt (\<lambda>a b. date_ge (parse (start_ts b)) (parse (start_ts a))) rows)"
    using groups_grouped [OF valid assms(2)] by (elim exE conjE)
  have k': "set (map fst gs) =
      {k. \<exists>ev \<in> set events. \<exists>t. parse (start_ts ev) = Some t \<and> k = utc_date_spec t}"
  proof -
    have "(dayKey parse ev = Inr k) = (\<exists>t. parse (start_ts ev) = Some t \<and> k = utc_date_spec t)"
      if "ev \<in> set events" for ev k
    proof -
      have "\<exists>t. parse (start_ts ev) = Some t \<and> 0 \<le> YearFromTime t \<and> YearFromTime t \<le> 9999"
        using assms(1) that by (rule bspec)
      then obtain t where t: "parse (start_ts ev) = Some t"
        by (elim exE conjE)
      show ?thesis
        using key [OF that t] t by auto
    qed
    then show ?thesis
      unfolding k by blast
  qed
  have f': "\<forall>(k, rows) \<in> set gs.
      \<exists>t. (\<exists>ev \<in> set events. parse (start_ts ev) = Some t) \<and> k = utc_date_spec t \<and>
          rows = filter (\<lambda>ev. map_option Day (parse (start_ts ev)) = Some (Day t)) events"
  proof (intro ballI, clarify)
    fix k rows
    assume g: "(k, rows) \<in> set gs"
    then have "k \<in> set (map fst gs)"
      by (metis fst_conv image_eqI set_map)
    then obtain ev0 t0 where e0: "ev0 \<in> set events" "parse (start_ts ev0) = Some t0"
      "k = utc_date_spec t0"
      unfolding k' by blast
    have "rows = filter (\<lambda>ev. dayKey parse ev = Inr k) events"
      using f g by blast
    also have "\<dots> = filter (\<lambda>ev. map_option Day (parse (start_ts ev)) = Some (Day t0)) events"
      unfolding e0(3) using same [OF _ e0(1,2)] by (intro filter_cong) simp_all
    finally show "\<exists>t. (\<exists>ev \<in> set events. parse (start_ts ev) = Some t) \<and> k = utc_date_spec t \<and>
        rows = filter (\<lambda>ev. map_option Day (parse (start_ts ev)) = Some (Day t)) events"
      using e0 by blast
  qed
  have e: "groups parse localeCompare [] = Inr []"
    by (simp add: groups_def sort_cmp_def)
  have u: "0 \<le> YearFromTime t1 \<and> YearFromTime t1 \<le> 9999 \<and>
      0 \<le> YearFromTime t2 \<and> YearFromTime t2 \<le> 9999 \<longrightarrow>
      (utc_date_spec t1 = utc_date_spec t2) = (Day t1 = Day t2)"
    by (simp add: utc_date_spec_eq_iff)
  have "\<exists>gs. groups parse localeCompare events = Inr gs \<and>
           distinct (map fst gs) \<and>
           set (map fst gs) =
             {k. \<exists>ev \<in> set events. \<exists>t. parse (start_ts ev) = Some t \<and> k = utc_date_spec t} \<and>
           sorted_wrt (\<lambda>a b. localeCompare a b \<le> 0) (map fst gs) \<and>
           (\<forall>(k, rows) \<in> set gs.
              \<exists>t. (\<exists>ev \<in> set events. parse (start_ts ev) = Some t) \<and> k = utc_date_spec t \<and>
                  rows = filter (\<lambda>ev. map_option Day (parse (start_ts ev)) = Some (Day t))
                           events) \<and>
           (sorted_wrt (\<lambda>a b. date_ge (parse (start_ts b)) (parse (start_ts a))) events \<longrightarrow>
              (\<forall>(k, rows) \<in> set gs.
                 sorted_wrt (\<lambda>a b. date_ge (parse (start_ts b)) (parse (start_ts a))) rows))"
    using r d k' o f' i by (intro exI [of _ gs] conjI)
  then show ?thesis
    using e u by (intro conjI)
qed

lemma consistent_unit_compare: "consistent_cmp unit_compare"
  unfolding consistent_cmp_def unit_compare_def
proof (intro conjI allI impI)
  fix a b :: string
  show "(if a < b then - 1 else if a = b then 0 else 1) \<le> (0 :: int) \<or>
      (if b < a then - 1 else if b = a then 0 else 1) \<le> (0 :: int)"
    using linorder_less_linear [of a b] by auto
next
  fix a b c :: string
  assume "(if a < b then - 1 else if a = b then 0 else 1) \<le> (0 :: int) \<and>
      (if b < c then - 1 else if b = c then 0 else 1) \<le> (0 :: int)"
  then have "a \<le> b" "b \<le> c"
    by (auto split: if_splits)
  then have "a \<le> c"
    by (rule order_trans)
  then show "(if a < c then - 1 else if a = c then 0 else 1) \<le> (0 :: int)"
    by auto
qed

lemma dayKey_morning: "dayKey new_year_parse morning = Inr ''2025-01-01''"
  by code_simp

lemma dayKey_evening: "dayKey new_year_parse evening = Inr ''2025-01-01''"
  by code_simp

lemma morning_neq_evening: "morning \<noteq> evening"
  by (simp add: morning_def evening_def)

lemma distinct_singleton_list:
  assumes "distinct xs" "set xs = {a}"
  shows "xs = [a]"
proof (cases xs)
  case Nil
  then show ?thesis using assms(2) by simp
next
  case (Cons x ys)
  have "x = a" using assms(2) Cons by auto
  moreover have "set ys \<subseteq> {a}" using assms(2) Cons by auto
  moreover have "a \<notin> set ys" using assms(1) Cons \<open>x = a\<close> by simp
  ultimately have "ys = []" by (cases ys) auto
  then show ?thesis using Cons \<open>x = a\<close> by simp
qed

lemma new_year_starts:
  "new_year_parse (start_ts morning) = Some 1735725600000"
  "new_year_parse (start_ts evening) = Some 1735772400000"
  by (simp_all add: new_year_parse_def morning_def evening_def)

lemma new_year_day: "Day 1735725600000 = 20089" "Day 1735772400000 = 20089"
  by (simp_all add: Day_def msPerDay_def)

lemma new_year_year: "YearFromTime 1735725600000 = 2025" "YearFromTime 1735772400000 = 2025"
  by (simp_all add: YearFromTime_def new_year_day DayFromYear_def Let_def)

lemma new_year_date:
  "utc_date_spec 1735725600000 = ''2025-01-01''" "utc_date_spec 1735772400000 = ''2025-01-01''"
  by code_simp+

theorem groups_by_day_witness:
  "groups new_year_parse unit_compare [morning, evening] =
     Inr [(''2025-01-01'', [morning, evening])] \<and>
   utc_date_spec 1735725600000 = utc_date_spec 1735772400000 \<and>
   Day 1735725600000 = Day 1735772400000"
proof -
  define key where "key = ''2025-01-01''"
  have kd: "utc_date_spec 1735725600000 = key" "utc_date_spec 1735772400000 = key"
    by (simp_all add: key_def new_year_date)
  have h: "\<forall>ev \<in> set [morning, evening].
      \<exists>t. new_year_parse (start_ts ev) = Some t \<and> 0 \<le> YearFromTime t \<and> YearFromTime t \<le> 9999"
    by (simp add: new_year_starts new_year_year)
  note w = groups_by_day [OF h consistent_unit_compare, of 1735725600000 1735772400000]
  from w obtain gs where r: "groups new_year_parse unit_compare [morning, evening] = Inr gs"
    and d: "distinct (map fst gs)"
    and k: "set (map fst gs) =
      {k. \<exists>ev \<in> set [morning, evening].
            \<exists>t. new_year_parse (start_ts ev) = Some t \<and> k = utc_date_spec t}"
    and f: "\<forall>(k, rows) \<in> set gs.
      \<exists>t. (\<exists>ev \<in> set [morning, evening]. new_year_parse (start_ts ev) = Some t) \<and>
          k = utc_date_spec t \<and>
          rows = filter (\<lambda>ev. map_option Day (new_year_parse (start_ts ev)) = Some (Day t))
                   [morning, evening]"
    by (elim exE conjE)
  have "set (map fst gs) = {key}"
    unfolding k by (auto simp: new_year_starts kd)
  with d have "map fst gs = [key]"
    by (rule distinct_singleton_list)
  then obtain rows where g: "gs = [(key, rows)]"
    by (cases gs) auto
  with f obtain t where t: "t = 1735725600000 \<or> t = 1735772400000"
    and rows: "rows = filter (\<lambda>ev. map_option Day (new_year_parse (start_ts ev)) = Some (Day t))
      [morning, evening]"
    by (auto simp: new_year_starts)
  from t have "Day t = 20089"
    by (auto simp: new_year_day)
  with rows have "rows = [morning, evening]"
    by (simp add: new_year_starts new_year_day)
  with g r have 1: "groups new_year_parse unit_compare [morning, evening] =
      Inr [(''2025-01-01'', [morning, evening])]"
    by (simp add: key_def)
  have "(utc_date_spec 1735725600000 = utc_date_spec 1735772400000) =
      (Day 1735725600000 = Day 1735772400000)"
    using w new_year_year by simp
  then have 2: "utc_date_spec 1735725600000 = utc_date_spec 1735772400000"
    by (simp add: new_year_day)
  from 1 2 show ?thesis
    by (simp add: new_year_day)
qed

lemma group_loop_evening_morning:
  "group_loop new_year_parse [] [evening, morning] = Inr [(''2025-01-01'', [evening, morning])]"
  by (simp add: dayKey_morning dayKey_evening map_push_def map_has_def)

lemma year_10000_key:
  "dayKey (\<lambda>s. Some 253402300800000) ev = Inr ''+010000-01''"
  "dayKey (\<lambda>s. Some 253403510400000) ev = Inr ''+010000-01''"
proof -
  have d: "Day 253402300800000 = 2932897" "Day 253403510400000 = 2932911"
    by (simp_all add: Day_def msPerDay_def)
  have y: "YearFromTime 253402300800000 = 10000" "YearFromTime 253403510400000 = 10000"
    by (simp_all add: YearFromTime_def d DayFromYear_def Let_def)
  have m: "MonthFromTime 253402300800000 = 0" "MonthFromTime 253403510400000 = 0"
    by (simp_all add: MonthFromTime_def DayWithinYear_def InLeapYear_def DaysInYear_def y d
        DayFromYear_def Let_def)
  have p: "pad_to 6 10000 = ''010000''" "pad_to 2 1 = ''01''"
    by (simp_all add: pad_to_def padStart_def digits.simps)
  show "dayKey (\<lambda>s. Some 253402300800000) ev = Inr ''+010000-01''"
    by (simp add: dayKey_def toISOString_def Let_def y m p)
  show "dayKey (\<lambda>s. Some 253403510400000) ev = Inr ''+010000-01''"
    by (simp add: dayKey_def toISOString_def Let_def y m p)
qed

theorem groups_by_day_counterexample:
  "groups new_year_parse unit_compare [evening, morning] =
     Inr [(''2025-01-01'', [evening, morning])] \<and>
   \<not> sorted_wrt (\<lambda>a b. date_ge (new_year_parse (start_ts b)) (new_year_parse (start_ts a)))
       [evening, morning] \<and>
   dayKey (\<lambda>s. Some 253402300800000) morning = Inr ''+010000-01'' \<and>
   dayKey (\<lambda>s. Some 253403510400000) morning = Inr ''+010000-01'' \<and>
   Day 253402300800000 \<noteq> Day 253403510400000"
proof (intro conjI)
  show "groups new_year_parse unit_compare [evening, morning] =
     Inr [(''2025-01-01'', [evening, morning])]"
    unfolding groups_def group_loop_evening_morning by (simp add: sort_cmp_def)
  show "\<not> sorted_wrt (\<lambda>a b. date_ge (new_year_parse (start_ts b)) (new_year_parse (start_ts a)))
       [evening, morning]"
    by (simp add: date_ge_def morning_def evening_def new_year_parse_def)
  show "dayKey (\<lambda>s. Some 253402300800000) morning = Inr ''+010000-01''"
    by (rule year_10000_key)
  show "dayKey (\<lambda>s. Some 253403510400000) morning = Inr ''+010000-01''"
    by (rule year_10000_key)
  show "Day 253402300800000 \<noteq> Day 253403510400000"
    by (simp add: Day_def msPerDay_def)
qed

section \<open>The calendar link\<close>










lemma urlencode_Nil [simp]: "urlencode [] = []"
  by (simp add: urlencode_def)


























end
